theory Spec2Isabelle
  imports Main "HOL-Library.Sublist"
begin

section \<open>Python strings and slices\<close>

text \<open>
  A Python \<open>str\<close> is modelled as a \<open>string\<close> whose elements are read as the code
  points 0..255, so that \<open>length\<close> is Python's \<open>len\<close>.  The helpers below are the
  string methods the program calls: \<open>str.lower\<close>, \<open>str.strip\<close>, \<open>str.split\<close>
  (on whitespace and on a separator), the \<open>in\<close> test on substrings, \<open>str(n)\<close> for a
  non-negative integer and the slice \<open>xs[:k]\<close> with Python's reading of a negative bound.
\<close>

definition is_space :: "char \<Rightarrow> bool" where
  "is_space c =
     (let n = (of_char c :: nat)
      in (9 \<le> n \<and> n \<le> 13) \<or> (28 \<le> n \<and> n \<le> 32) \<or> n = 133 \<or> n = 160)"

definition lower_char :: "char \<Rightarrow> char" where
  "lower_char c =
     (let n = (of_char c :: nat)
      in if (65 \<le> n \<and> n \<le> 90) \<or> (192 \<le> n \<and> n \<le> 222 \<and> n \<noteq> 215)
         then char_of (n + 32) else c)"

definition lower :: "string \<Rightarrow> string" where
  "lower s = map lower_char s"

definition strip :: "string \<Rightarrow> string" where
  "strip s = rev (dropWhile is_space (rev (dropWhile is_space s)))"

text \<open>\<open>pat in s\<close> for two strings.\<close>

definition contains :: "string \<Rightarrow> string \<Rightarrow> bool" where
  "contains pat s = sublist pat s"

text \<open>\<open>s.split()\<close>: the maximal runs of non-whitespace characters, in order.\<close>

fun split_ws_from :: "string \<Rightarrow> string \<Rightarrow> string list" where
  "split_ws_from cur [] = (if cur = [] then [] else [rev cur])"
| "split_ws_from cur (c # cs) =
     (if is_space c
      then (if cur = [] then split_ws_from [] cs else rev cur # split_ws_from [] cs)
      else split_ws_from (c # cur) cs)"

definition split_ws :: "string \<Rightarrow> string list" where
  "split_ws s = split_ws_from [] s"

text \<open>\<open>s.split(d)\<close> for a one-character separator: never empty, \<open>''''.split(d) = ['''']\<close>.\<close>

fun split_on :: "char \<Rightarrow> string \<Rightarrow> string list" where
  "split_on d [] = [[]]"
| "split_on d (c # cs) =
     (if c = d then [] # split_on d cs
      else (case split_on d cs of [] \<Rightarrow> [[c]] | w # ws \<Rightarrow> (c # w) # ws))"

text \<open>\<open>sep.join(parts)\<close>.\<close>

fun join :: "string \<Rightarrow> string list \<Rightarrow> string" where
  "join sep [] = []"
| "join sep [p] = p"
| "join sep (p # q # ps) = p @ sep @ join sep (q # ps)"

text \<open>\<open>xs[:k]\<close>: a negative \<open>k\<close> counts from the end and is clipped at the start.\<close>

definition slice_to :: "'a list \<Rightarrow> int \<Rightarrow> 'a list" where
  "slice_to xs k =
     (if k < 0 then take (nat (int (length xs) + k)) xs else take (nat k) xs)"

definition digit_char :: "nat \<Rightarrow> char" where
  "digit_char d = char_of (48 + d)"

fun str_nat :: "nat \<Rightarrow> string" where
  "str_nat n = (if n < 10 then [digit_char n] else str_nat (n div 10) @ [digit_char (n mod 10)])"

declare str_nat.simps [simp del]

section \<open>Data model (models/research.py)\<close>

datatype SearchSource = WEB | ACADEMIC | BOTH

fun SearchSource_value :: "SearchSource \<Rightarrow> string" where
  "SearchSource_value WEB = ''web''"
| "SearchSource_value ACADEMIC = ''academic''"
| "SearchSource_value BOTH = ''both''"

text \<open>\<open>SearchSource(s)\<close>: the member whose value is \<open>s\<close>, or \<open>ValueError\<close> (here \<open>None\<close>).\<close>

definition SearchSource_of_value :: "string \<Rightarrow> SearchSource option" where
  "SearchSource_of_value s =
     (if s = ''web'' then Some WEB
      else if s = ''academic'' then Some ACADEMIC
      else if s = ''both'' then Some BOTH
      else None)"

text \<open>
  The metadata dictionary of a search result maps a key to the text of its value
  (the academic searcher stores \<open>authors\<close>, \<open>year\<close>, \<open>venue\<close> and \<open>abstract\<close>).
\<close>

record SearchResult =
  title :: string
  url :: string
  snippet :: string
  source_type :: string
  metadata :: "(string \<rightharpoonup> string) option"

text \<open>Time stamps (\<open>datetime.now()\<close>) and durations are natural numbers of clock ticks.\<close>

record ExtractedContent =
  c_title :: string
  c_url :: string
  description :: string
  content :: string
  extraction_time :: nat
  error :: "string option"

record ResearchQuery =
  query :: string
  sources :: SearchSource
  num_results :: int

datatype ValueError = ValueError string

text \<open>
  The \<open>sources\<close> argument of the constructor is a \<open>SearchSource\<close> or a string that
  \<open>__post_init__\<close> converts.
\<close>

datatype sources_arg = Member SearchSource | Str string

text \<open>The dataclass constructor followed by \<open>__post_init__\<close>.\<close>

definition ResearchQuery_init :: "string \<Rightarrow> sources_arg \<Rightarrow> int \<Rightarrow> ValueError + ResearchQuery" where
  "ResearchQuery_init qtext src n =
     (if strip qtext = [] then Inl (ValueError ''Query cannot be empty'')
      else if n < 1 \<or> n > 5 then Inl (ValueError ''Number of results must be between 1 and 5'')
      else Inr \<lparr>query = qtext,
                sources = (case src of
                             Member m \<Rightarrow> m
                           | Str s \<Rightarrow> (case SearchSource_of_value (lower s) of
                                         Some m \<Rightarrow> m
                                       | None \<Rightarrow> BOTH)),
                num_results = n\<rparr>)"

section \<open>Source balancer (ResearchService._select_sources_for_extraction)\<close>

definition is_web :: "SearchResult \<Rightarrow> bool" where
  "is_web r = (source_type r = ''web'')"

definition is_academic :: "SearchResult \<Rightarrow> bool" where
  "is_academic r = (source_type r = ''academic'')"

text \<open>
  The interleaving loop \<open>for i in range(max(len(web_results), len(academic_results)))\<close>:
  the first argument is the list of indices still to visit, the last one is
  \<open>combined_sources\<close>.  The \<open>break\<close> returns the list built so far.
\<close>

fun interleave ::
  "nat list \<Rightarrow> SearchResult list \<Rightarrow> SearchResult list \<Rightarrow> int \<Rightarrow> int \<Rightarrow>
   SearchResult list \<Rightarrow> SearchResult list" where
  "interleave [] web_results academic_results n max_per_type combined = combined"
| "interleave (i # rest) web_results academic_results n max_per_type combined =
     (if int (length combined) \<ge> n then combined
      else
        let c1 = (if i < length web_results \<and>
                     int (length (filter is_web combined)) < max_per_type
                  then combined @ [web_results ! i] else combined);
            c2 = (if i < length academic_results \<and>
                     int (length (filter is_academic c1)) < max_per_type
                  then c1 @ [academic_results ! i] else c1)
        in interleave rest web_results academic_results n max_per_type c2)"

definition select_sources_for_extraction ::
  "SearchResult list \<Rightarrow> ResearchQuery \<Rightarrow> SearchResult list" where
  "select_sources_for_extraction search_results q =
     (if sources q = BOTH then
        let web_results = filter is_web search_results;
            academic_results = filter is_academic search_results;
            max_per_type = max 1 (num_results q div 2);
            combined = interleave [0 ..< max (length web_results) (length academic_results)]
                         web_results academic_results (num_results q) max_per_type []
        in slice_to combined (num_results q)
      else slice_to search_results (num_results q))"

section \<open>Extraction orchestrator (ResearchService._extract_valid_content)\<close>

text \<open>
  One element of the list that \<open>asyncio.gather(..., return_exceptions=True)\<close> returns:
  the exception a task raised (with its \<open>str\<close>), or the content it returned.
\<close>

datatype gathered = Exc string | Res ExtractedContent

text \<open>
  The content resolver is a collaborator of the orchestrator.  Its outcome may depend on
  the call, so it is a function of the iteration in which the batch is issued, the
  position in the batch and the source.
\<close>

type_synonym resolver = "nat \<Rightarrow> nat \<Rightarrow> SearchResult \<Rightarrow> gathered"

datatype py_error = ZeroDivisionError

text \<open>The calls of the logger, in order, with the values each message is formatted from.\<close>

datatype log_entry =
    TargetInfo int nat
  | NoMoreAvailable
  | NoSourcesInBatch
  | BatchInfo nat nat int
  | ExtractionFailed string
  | SkippingInvalid string string
  | SkippingInsufficient string
  | ValidFound string nat int
  | NeedMore int nat
  | ReachedMaxIterations nat nat
  | ExtractionCompleted nat nat nat

text \<open>
  The local variables of \<open>_extract_valid_content\<close> that change while it runs.
  \<open>tried_sources\<close> is a Python set: here a list without repetitions
  (\<open>List.insert\<close> adds an element only when it is absent).  \<open>errors_acc\<close> is the
  caller's \<open>errors\<close> list, which the function appends to in place.
  \<open>gathered_batches\<close> is not a variable of the source: it records the calls of the
  resolver, as the batches handed to \<open>asyncio.gather\<close> in the order of the calls.
\<close>

record orch_state =
  valid_content :: "ExtractedContent list"
  tried_sources :: "string list"
  errors_acc :: "string list"
  source_index :: nat
  iteration_count :: nat
  gathered_batches :: "SearchResult list list"
  logged :: "log_entry list"

definition max_iterations :: nat where
  "max_iterations = 5"

text \<open>An optional string inside an f-string: \<open>None\<close> is printed as its name.\<close>

definition format_optional :: "string option \<Rightarrow> string" where
  "format_optional e = (case e of None \<Rightarrow> ''None'' | Some t \<Rightarrow> t)"

text \<open>\<open>content.error and "validation failed" in content.error.lower()\<close>\<close>

definition validation_failed :: "ExtractedContent \<Rightarrow> bool" where
  "validation_failed c =
     (case error c of
        None \<Rightarrow> False
      | Some e \<Rightarrow> e \<noteq> [] \<and> contains ''validation failed'' (lower e))"

text \<open>\<open>not content.content or len(content.content.strip()) < 50\<close>\<close>

definition insufficient :: "ExtractedContent \<Rightarrow> bool" where
  "insufficient c = (content c = [] \<or> length (strip (content c)) < 50)"

text \<open>
  The loop \<open>for i, content in enumerate(batch_content)\<close> over the batch paired with its
  outcomes; \<open>n\<close> is \<open>query.num_results\<close>.  The \<open>break\<close> leaves the rest of the batch
  unscanned (and its urls out of \<open>tried_sources\<close>).
\<close>

fun filter_batch :: "int \<Rightarrow> (SearchResult \<times> gathered) list \<Rightarrow> orch_state \<Rightarrow> orch_state" where
  "filter_batch n [] st = st"
| "filter_batch n ((source, outcome) # rest) st =
     (let st1 = st\<lparr>tried_sources := List.insert (url source) (tried_sources st)\<rparr>
      in case outcome of
           Exc msg \<Rightarrow>
             (let error_msg = ''Content extraction failed for '' @ url source @ '': '' @ take 100 msg
              in filter_batch n rest
                   (st1\<lparr>errors_acc := errors_acc st1 @ [error_msg],
                        logged := logged st1 @ [ExtractionFailed error_msg]\<rparr>))
         | Res c \<Rightarrow>
             if validation_failed c then
               filter_batch n rest
                 (st1\<lparr>logged := logged st1 @ [SkippingInvalid (c_url c) (format_optional (error c))]\<rparr>)
             else if insufficient c then
               filter_batch n rest
                 (st1\<lparr>logged := logged st1 @ [SkippingInsufficient (c_url c)]\<rparr>)
             else
               (let vc = valid_content st1 @ [c];
                    st2 = st1\<lparr>valid_content := vc,
                              logged := logged st1 @ [ValidFound (c_url c) (length vc) n]\<rparr>
                in if int (length vc) \<ge> n then st2 else filter_batch n rest st2))"

datatype loop_step = Continue orch_state | Break orch_state | Raise py_error

text \<open>
  The part of the loop body after \<open>current_batch\<close> is chosen.  The batch message
  divides by \<open>batch_size\<close>, which raises when it is zero.  The batch is resolved as a
  whole (\<open>gather\<close>) before any outcome is looked at.
\<close>

definition process_batch ::
  "resolver \<Rightarrow> int \<Rightarrow> nat \<Rightarrow> SearchResult list \<Rightarrow> orch_state \<Rightarrow> loop_step" where
  "process_batch resolve n batch_size current_batch st =
     (if current_batch = [] then Break (st\<lparr>logged := logged st @ [NoSourcesInBatch]\<rparr>)
      else if batch_size = 0 then Raise ZeroDivisionError
      else
        let st1 = st\<lparr>logged := logged st @
                      [BatchInfo (source_index st div batch_size + 1) (length current_batch)
                         (n - int (length (valid_content st)))],
                    gathered_batches := gathered_batches st @ [current_batch]\<rparr>;
            batch_content = map (\<lambda>(i, source). resolve (iteration_count st) i source)
                              (enumerate 0 current_batch);
            st2 = filter_batch n (zip current_batch batch_content) st1;
            st3 = st2\<lparr>source_index := source_index st2 + batch_size\<rparr>
        in Continue
             (if int (length (valid_content st3)) < n
              then st3\<lparr>logged := logged st3 @
                         [NeedMore (n - int (length (valid_content st3))) (iteration_count st3)]\<rparr>
              else st3))"

text \<open>One pass through the body of the \<open>while\<close> loop.\<close>

definition iteration ::
  "resolver \<Rightarrow> SearchResult list \<Rightarrow> int \<Rightarrow> nat \<Rightarrow> SearchResult list \<Rightarrow> orch_state \<Rightarrow> loop_step" where
  "iteration resolve search_results n batch_size balanced_sources st =
     (let st1 = st\<lparr>iteration_count := iteration_count st + 1\<rparr>
      in if source_index st1 = 0 then
           process_batch resolve n batch_size (take batch_size balanced_sources) st1
         else
           let available_sources =
                 filter (\<lambda>s. url s \<notin> set (tried_sources st1)) search_results
           in if available_sources = [] then
                Break (st1\<lparr>logged := logged st1 @ [NoMoreAvailable]\<rparr>)
              else process_batch resolve n batch_size (take batch_size available_sources) st1)"

definition loop_guard :: "SearchResult list \<Rightarrow> int \<Rightarrow> orch_state \<Rightarrow> bool" where
  "loop_guard search_results n st =
     (int (length (valid_content st)) < n \<and>
      source_index st < length search_results \<and>
      iteration_count st < max_iterations)"

function while_loop ::
  "resolver \<Rightarrow> SearchResult list \<Rightarrow> int \<Rightarrow> nat \<Rightarrow> SearchResult list \<Rightarrow> orch_state \<Rightarrow>
   py_error + orch_state" where
  "while_loop resolve search_results n batch_size balanced_sources st =
     (if loop_guard search_results n st then
        (case iteration resolve search_results n batch_size balanced_sources st of
           Raise e \<Rightarrow> Inl e
         | Break st' \<Rightarrow> Inr st'
         | Continue st' \<Rightarrow>
             while_loop resolve search_results n batch_size balanced_sources st')
      else Inr st)"
  by pat_completeness auto

text \<open>
  The loop counts its passes and stops at \<open>max_iterations\<close>, so it terminates whatever
  the resolver answers: a pass that continues has raised \<open>iteration_count\<close> by one.
\<close>

lemma filter_batch_iteration_count:
  "iteration_count (filter_batch n items st) = iteration_count st"
  by (induction n items st rule: filter_batch.induct)
     (simp_all add: Let_def split: gathered.splits)

lemma process_batch_iteration_count:
  "process_batch resolve n bs batch st = Continue st' \<Longrightarrow>
   iteration_count st' = iteration_count st"
  by (auto simp: process_batch_def Let_def filter_batch_iteration_count split: if_splits)

lemma iteration_count_Continue:
  "iteration resolve sr n bs bal st = Continue st' \<Longrightarrow>
   iteration_count st' = Suc (iteration_count st)"
  by (auto simp: iteration_def Let_def split: if_splits dest!: process_batch_iteration_count)

termination while_loop
proof (relation "measure (\<lambda>(resolve, sr, n, bs, bal, st). max_iterations - iteration_count st)")
  show "wf (measure (\<lambda>(resolve, sr, n, bs, bal, st). max_iterations - iteration_count st))"
    by simp
next
  fix resolve sr n bs bal st st'
  assume "loop_guard sr n st" and "iteration resolve sr n bs bal st = Continue st'"
  then show "((resolve, sr, n, bs, bal, st'), (resolve, sr, n, bs, bal, st))
        \<in> measure (\<lambda>(resolve, sr, n, bs, bal, st). max_iterations - iteration_count st)"
    by (auto simp: loop_guard_def dest!: iteration_count_Continue)
qed

declare while_loop.simps [simp del]

text \<open>The local variables as they are set before the loop, and the first log message.\<close>

definition initial_state :: "string list \<Rightarrow> int \<Rightarrow> nat \<Rightarrow> orch_state" where
  "initial_state errors_in n available =
     \<lparr>valid_content = [], tried_sources = [], errors_acc = errors_in,
      source_index = 0, iteration_count = 0, gathered_batches = [],
      logged = [TargetInfo n available]\<rparr>"

text \<open>
  The whole of \<open>_extract_valid_content\<close>.  It returns \<open>valid_content\<close>; the final state
  also holds the caller's error list as the function left it, the bookkeeping and the log.
\<close>

definition extract_valid_content ::
  "resolver \<Rightarrow> SearchResult list \<Rightarrow> ResearchQuery \<Rightarrow> string list \<Rightarrow> py_error + orch_state" where
  "extract_valid_content resolve search_results q errors_in =
     (let batch_size = min 3 (length search_results);
          st0 = initial_state errors_in (num_results q) (length search_results);
          balanced_sources = select_sources_for_extraction search_results q
      in case while_loop resolve search_results (num_results q) batch_size balanced_sources st0 of
           Inl e \<Rightarrow> Inl e
         | Inr st \<Rightarrow>
             let st1 = (if iteration_count st \<ge> max_iterations
                        then st\<lparr>logged := logged st @
                                  [ReachedMaxIterations max_iterations (length (valid_content st))]\<rparr>
                        else st)
             in Inr (st1\<lparr>logged := logged st1 @
                           [ExtractionCompleted (length (valid_content st1))
                              (length (tried_sources st1)) (iteration_count st1)]\<rparr>))"

section \<open>Validity filter (ContentExtractor._is_valid_content)\<close>

definition error_patterns :: "string list" where
  "error_patterns =
     [''javascript is disabled'', ''page restricted'', ''access denied'', ''403 forbidden'',
      ''404 not found'', ''503 service unavailable'', ''login required'',
      ''subscription required'', ''paywall'', ''please enable javascript'',
      ''cookies required'', ''captcha'', ''robot verification'', ''cloudflare'',
      ''enable cookies'', ''browser not supported'', ''content not available'',
      ''page not found'', ''unauthorized access'', ''permission denied'']"

definition ui_patterns :: "string list" where
  "ui_patterns =
     [''skip to main content'', ''toggle navigation'', ''menu'', ''search'', ''login'',
      ''sign up'', ''cookie policy'']"

text \<open>\<open>sum(1 for pattern in ui_patterns if pattern in content_lower)\<close>\<close>

definition ui_count :: "string \<Rightarrow> nat" where
  "ui_count content_text = length (filter (\<lambda>pattern. contains pattern (lower content_text)) ui_patterns)"

text \<open>\<open>len(content.split())\<close>\<close>

definition content_words :: "string \<Rightarrow> nat" where
  "content_words content_text = length (split_ws content_text)"

text \<open>
  The source compares the float quotient \<open>ui_count / content_words\<close> with the float
  \<open>0.3\<close>.  \<open>ui_count\<close> is at most 7, so the exact quotient either is \<open>3/10\<close> (the
  division then rounds to the very float that the literal \<open>0.3\<close> denotes, and the test
  is false) or differs from \<open>3/10\<close> by at least \<open>1/240\<close>, far more than the rounding
  error: the float test decides exactly \<open>10 * ui_count > 3 * content_words\<close>.
\<close>

definition mostly_ui :: "string \<Rightarrow> bool" where
  "mostly_ui content_text =
     (content_words content_text > 0 \<and> 10 * ui_count content_text > 3 * content_words content_text)"

definition meaningful_sentences :: "string \<Rightarrow> string list" where
  "meaningful_sentences content_text =
     filter (\<lambda>s. length (strip s) > 20) (split_on (CHR ''.'') content_text)"

definition is_valid_content :: "string \<Rightarrow> string \<Rightarrow> string \<Rightarrow> bool" where
  "is_valid_content content_text description_text title_text =
     (if content_text = [] \<or> length (strip content_text) < 50 then False
      else if list_ex (\<lambda>pattern. contains pattern (lower content_text) \<or>
                                 contains pattern (lower title_text) \<or>
                                 contains pattern (lower description_text)) error_patterns
           then False
      else if mostly_ui content_text then False
      else length (meaningful_sentences content_text) \<ge> 2)"

section \<open>Content resolver (ContentExtractor.extract, extract_from_source)\<close>

text \<open>
  What the three helpers \<open>_extract_title\<close>, \<open>_extract_description\<close> and
  \<open>_extract_content\<close> return for the parsed document.
\<close>

record page =
  p_title :: string
  p_description :: string
  p_content :: string

text \<open>
  The outcome of \<open>client.get(url)\<close>: an exception (with its \<open>str\<close>), or a response with
  its \<open>content-type\<close> header if present and with what parsing its text gives, which is
  again an exception or a page.  Parsing happens only where \<open>extract_url\<close> asks for it.
\<close>

datatype fetch_outcome =
    FetchRaised string
  | FetchResponse "string option" "string + page"

definition failed_content :: "string \<Rightarrow> string \<Rightarrow> nat \<Rightarrow> string \<Rightarrow> ExtractedContent" where
  "failed_content t u now msg =
     \<lparr>c_title = t, c_url = u, description = ''Content extraction failed'', content = [],
      extraction_time = now, error = Some (take 100 msg)\<rparr>"

text \<open>\<open>ContentExtractor.extract\<close> (the bare name is a command of Isabelle).\<close>

definition extract_url :: "(string \<Rightarrow> fetch_outcome) \<Rightarrow> nat \<Rightarrow> string \<Rightarrow> ExtractedContent" where
  "extract_url fetch now u =
     (case fetch u of
        FetchRaised msg \<Rightarrow> failed_content ''Error'' u now msg
      | FetchResponse header parsed \<Rightarrow>
          let content_type = lower (case header of None \<Rightarrow> [] | Some v \<Rightarrow> v)
          in if contains ''application/pdf'' content_type then
               \<lparr>c_title = ''PDF Document'', c_url = u,
                description = ''PDF document - contents cannot be extracted directly'',
                content = ''[PDF document - contents cannot be extracted directly]'',
                extraction_time = now, error = None\<rparr>
             else
               (case parsed of
                  Inl msg \<Rightarrow> failed_content ''Error'' u now msg
                | Inr pg \<Rightarrow>
                    if \<not> is_valid_content (p_content pg) (p_description pg) (p_title pg) then
                      \<lparr>c_title = p_title pg, c_url = u, description = p_description pg,
                       content = [], extraction_time = now,
                       error = Some ''Content validation failed - low quality or restricted content''\<rparr>
                    else
                      \<lparr>c_title = p_title pg, c_url = u, description = p_description pg,
                       content = p_content pg, extraction_time = now, error = None\<rparr>))"

text \<open>\<open>d.get(key, default)\<close> on a dictionary.\<close>

definition dict_get :: "(string \<rightharpoonup> string) \<Rightarrow> string \<Rightarrow> string \<Rightarrow> string" where
  "dict_get d k dflt = (case d k of None \<Rightarrow> dflt | Some v \<Rightarrow> v)"

text \<open>
  \<open>source.metadata and source.metadata.get("abstract")\<close>: the dictionary and its
  abstract, when the dictionary is there and holds a non-empty abstract.
\<close>

definition usable_abstract :: "SearchResult \<Rightarrow> ((string \<rightharpoonup> string) \<times> string) option" where
  "usable_abstract source =
     (case metadata source of
        None \<Rightarrow> None
      | Some d \<Rightarrow> (case d ''abstract'' of
                     None \<Rightarrow> None
                   | Some a \<Rightarrow> if a = [] then None else Some (d, a)))"

text \<open>
  With typed fields nothing in the body of \<open>extract_from_source\<close> raises outside
  \<open>extract_url\<close>, which catches every exception itself, so the handler of
  \<open>extract_from_source\<close> (it would return an error content with an empty body as well)
  has no branch here.
\<close>

definition extract_from_source ::
  "(string \<Rightarrow> fetch_outcome) \<Rightarrow> nat \<Rightarrow> SearchResult \<Rightarrow> ExtractedContent" where
  "extract_from_source fetch now source =
     (case (if source_type source = ''academic'' then usable_abstract source else None) of
        Some (d, abstract) \<Rightarrow>
          (let authors = dict_get d ''authors'' ''Unknown authors'';
               year = dict_get d ''year'' ''Unknown year'';
               venue = dict_get d ''venue'' [];
               content_parts = [''Authors: '' @ authors, ''Year: '' @ year] @
                               (if venue \<noteq> [] then [''Published in: '' @ venue] else []) @
                               [[], ''Abstract:'', abstract]
           in if \<not> is_valid_content abstract [] (title source) then extract_url fetch now (url source)
              else \<lparr>c_title = title source, c_url = url source,
                    description = ''Academic paper by '' @ authors @ '' ('' @ year @ '')'',
                    content = join [CHR 0x0A] content_parts,
                    extraction_time = now, error = None\<rparr>)
      | None \<Rightarrow> extract_url fetch now (url source))"

text \<open>
  The resolver the service runs: every task of a batch calls \<open>extract_from_source\<close>,
  on the network and at the time of that call.
\<close>

definition service_resolver ::
  "(nat \<Rightarrow> nat \<Rightarrow> string \<Rightarrow> fetch_outcome) \<Rightarrow> (nat \<Rightarrow> nat \<Rightarrow> nat) \<Rightarrow> resolver" where
  "service_resolver net clock it i source = Res (extract_from_source (net it i) (clock it i) source)"

text \<open>
  The three outcomes the scan of a batch does not accept (an exception, a content whose
  error says that validation failed, a body that is empty or short), and the one it accepts.
\<close>

definition rejected :: "gathered \<Rightarrow> bool" where
  "rejected g = (case g of Exc msg \<Rightarrow> True | Res c \<Rightarrow> validation_failed c \<or> insufficient c)"

definition acceptable :: "gathered \<Rightarrow> bool" where
  "acceptable g = (case g of Exc msg \<Rightarrow> False | Res c \<Rightarrow> \<not> validation_failed c \<and> \<not> insufficient c)"

text \<open>An outcome in which a content that carries an error has an empty body.\<close>

definition error_means_empty :: "gathered \<Rightarrow> bool" where
  "error_means_empty g = (case g of Exc msg \<Rightarrow> True | Res c \<Rightarrow> error c \<noteq> None \<longrightarrow> content c = [])"

text \<open>The log entries that record a failed extraction or a skipped source.\<close>

fun is_error_or_skip :: "log_entry \<Rightarrow> bool" where
  "is_error_or_skip (ExtractionFailed m) = True"
| "is_error_or_skip (SkippingInvalid u e) = True"
| "is_error_or_skip (SkippingInsufficient u) = True"
| "is_error_or_skip other = False"

definition error_or_skip_entries :: "orch_state \<Rightarrow> log_entry list" where
  "error_or_skip_entries st = filter is_error_or_skip (logged st)"

section \<open>Report formatting (ResearchResult.format_output)\<close>

record ResearchResult =
  r_query :: ResearchQuery
  r_search_results :: "SearchResult list"
  r_extracted_content :: "ExtractedContent list"
  r_summary :: string
  r_total_sources :: int
  r_execution_time :: nat
  r_errors :: "string list"

abbreviation NL :: char where
  "NL \<equiv> CHR 0x0A"

definition truncation_msg :: string where
  "truncation_msg = [NL, NL] @ ''[Content truncated due to size limits]''"

definition separator :: string where
  "separator = replicate 40 (CHR ''='')"

text \<open>\<open>for i, search_result in enumerate(self.search_results, 1)\<close>, from index \<open>i\<close> on.\<close>

fun format_search_results :: "nat \<Rightarrow> SearchResult list \<Rightarrow> string" where
  "format_search_results i [] = []"
| "format_search_results i (search_result # rest) =
     str_nat i @ ''. '' @ title search_result @ [NL] @
     ''   URL: '' @ url search_result @ [NL] @
     ''   '' @ snippet search_result @ [NL, NL] @
     format_search_results (i + 1) rest"

text \<open>\<open>if content.error\<close>: the error is there and not the empty string.\<close>

definition has_error :: "ExtractedContent \<Rightarrow> bool" where
  "has_error c = (case error c of None \<Rightarrow> False | Some e \<Rightarrow> e \<noteq> [])"

fun format_contents :: "nat \<Rightarrow> ExtractedContent list \<Rightarrow> string" where
  "format_contents i [] = []"
| "format_contents i (c # rest) =
     (if has_error c then
        separator @ [NL] @ ''SOURCE '' @ str_nat i @ '': Error'' @ [NL] @ separator @ [NL] @
        ''Error: '' @ format_optional (error c) @ [NL, NL]
      else
        separator @ [NL] @ ''SOURCE '' @ str_nat i @ '': '' @ c_title c @ [NL] @ separator @ [NL, NL] @
        ''URL: '' @ c_url c @ [NL] @
        ''Description: '' @ description c @ [NL, NL] @
        ''Content:'' @ [NL] @ content c @ [NL, NL]) @
     format_contents (i + 1) rest"

text \<open>The text built before the truncation test.\<close>

definition untruncated_output :: "ResearchResult \<Rightarrow> string" where
  "untruncated_output r =
     ''Research Query: '' @ query (r_query r) @ [NL, NL] @
     ''Searched '' @
       (if sources (r_query r) = BOTH then ''web and academic sources''
        else SearchSource_value (sources (r_query r)) @ '' sources'') @
       '' - Found '' @ str_nat (length (r_search_results r)) @ '' results'' @ [NL, NL] @
     (if r_search_results r \<noteq> [] then
        ''SEARCH RESULTS:'' @ [NL] @ format_search_results 1 (r_search_results r)
      else []) @
     (if r_extracted_content r \<noteq> [] then
        ''DETAILED CONTENT FROM TOP '' @ str_nat (length (r_extracted_content r)) @
          '' SOURCES:'' @ [NL, NL] @ format_contents 1 (r_extracted_content r)
      else []) @
     [NL] @ ''RESEARCH SUMMARY:'' @ [NL] @ r_summary r @
     (if r_errors r \<noteq> [] then
        [NL, NL] @ ''ERRORS ENCOUNTERED:'' @ [NL] @
        concat (map (\<lambda>e. ''- '' @ e @ [NL]) (r_errors r))
      else [])"

definition format_output :: "ResearchResult \<Rightarrow> int \<Rightarrow> string" where
  "format_output r max_size =
     (let result = untruncated_output r
      in if int (length result) > max_size
         then slice_to result (max_size - int (length truncation_msg)) @ truncation_msg
         else result)"

section \<open>Academic searcher (AcademicSearcher.search, BaseSearcher._make_request)\<close>

text \<open>
  The exceptions on this path, each with the text \<open>str(e)\<close> gives.  \<open>SearchError\<close> is
  built from the search type and a message (exceptions/base.py).
\<close>

datatype exn =
    RequestError string
  | HTTPStatusError string
  | AttributeError string
  | SearchError string string

fun exn_str :: "exn \<Rightarrow> string" where
  "exn_str (RequestError m) = m"
| "exn_str (HTTPStatusError m) = m"
| "exn_str (AttributeError m) = m"
| "exn_str (SearchError search_type m) = ''Search error ('' @ search_type @ ''): '' @ m"

text \<open>
  A response as the searcher reads it: the status, its reason phrase, and the list that
  the parsing and processing of the body (lines 68 to 151 of \<open>search\<close>, which catch
  their own exceptions) give when the status lets them run.
\<close>

record http_response =
  status_code :: int
  reason_phrase :: string
  body_results :: "SearchResult list"

text \<open>The outcome of one \<open>client.get\<close>: a transport exception or a response.\<close>

datatype get_outcome = GetRaised string | GetResponse http_response

definition str_int :: "int \<Rightarrow> string" where
  "str_int i = (if i < 0 then ''-'' @ str_nat (nat (- i)) else str_nat (nat i))"

text \<open>
  \<open>response.raise_for_status()\<close> of the httpx library, which is not part of the
  repository: it returns on a 2xx status and raises \<open>HTTPStatusError\<close> otherwise, with a
  message that names the status (here the message ends after the url).
\<close>

definition raise_for_status :: "http_response \<Rightarrow> string \<Rightarrow> exn + http_response" where
  "raise_for_status response u =
     (if 200 \<le> status_code response \<and> status_code response \<le> 299 then Inr response
      else
        let status_class = status_code response div 100;
            error_type = (if status_class = 1 then ''Informational response''
                          else if status_class = 3 then ''Redirect response''
                          else if status_class = 4 then ''Client error''
                          else if status_class = 5 then ''Server error''
                          else ''Invalid status code'')
        in Inl (HTTPStatusError
                  (error_type @ '' '' @ [CHR 0x27] @ str_int (status_code response) @ '' '' @
                   reason_phrase response @ [CHR 0x27] @ '' for url '' @ [CHR 0x27] @ u @ [CHR 0x27])))"

definition make_request :: "get_outcome \<Rightarrow> string \<Rightarrow> exn + http_response" where
  "make_request outcome u =
     (case outcome of
        GetRaised m \<Rightarrow> Inl (RequestError m)
      | GetResponse response \<Rightarrow> raise_for_status response u)"

definition max_retries :: nat where
  "max_retries = 1"

text \<open>
  \<open>_make_request_with_retry\<close>: the loop \<open>for attempt in range(max_retries)\<close> over the
  attempts still to make; \<open>http attempt\<close> is what the network answers to that attempt.
  Leaving the loop without a \<open>return\<close> gives \<open>None\<close>.
\<close>

fun make_request_with_retry ::
  "(nat \<Rightarrow> get_outcome) \<Rightarrow> string \<Rightarrow> nat list \<Rightarrow> exn + http_response option" where
  "make_request_with_retry http u [] = Inr None"
| "make_request_with_retry http u (attempt # rest) =
     (case make_request (http attempt) u of
        Inr response \<Rightarrow> Inr (Some response)
      | Inl e \<Rightarrow>
          if contains ''429'' (exn_str e) \<and> attempt + 1 < max_retries
          then make_request_with_retry http u rest
          else Inl e)"

text \<open>
  \<open>AcademicSearcher.search\<close>.  \<open>quote_plus\<close> is the function of \<open>urllib.parse\<close>, taken
  as a parameter.  The wait for the rate limit changes the time of the request only and
  is left out.  Every exception below the outer \<open>try\<close> is raised again as a
  \<open>SearchError\<close>.
\<close>

definition AcademicSearcher_search ::
  "(string \<Rightarrow> string) \<Rightarrow> (nat \<Rightarrow> get_outcome) \<Rightarrow> string \<Rightarrow> int \<Rightarrow> exn + SearchResult list" where
  "AcademicSearcher_search quote_plus http query_text n =
     (let u = ''https://api.semanticscholar.org/graph/v1/paper/search?query='' @
              quote_plus query_text @ ''&limit='' @ str_int n @
              ''&fields=title,authors,year,venue,url,abstract''
      in case make_request_with_retry http u [0 ..< max_retries] of
           Inl e \<Rightarrow> Inl (SearchError ''academic'' (exn_str e))
         | Inr None \<Rightarrow>
             Inl (SearchError ''academic''
                    (exn_str (AttributeError
                       ([CHR 0x27] @ ''NoneType'' @ [CHR 0x27] @ '' object has no attribute '' @
                        [CHR 0x27] @ ''status_code'' @ [CHR 0x27]))))
         | Inr (Some response) \<Rightarrow>
             if status_code response \<noteq> 200 then Inr []
             else Inr (body_results response))"

section \<open>The word measure of the specification\<close>

text \<open>
  The specification speaks of the whitespace-delimited words that overlap with the
  denylist of UI terms.  In its narrowest reading a word overlaps when, in lower case, it
  is one of the terms; \<open>spec_ui_word_share_exceeds_30\<close> says that more than 30 percent of
  the words do.
\<close>

definition spec_ui_words :: "string \<Rightarrow> string list" where
  "spec_ui_words content_text = filter (\<lambda>w. lower w \<in> set ui_patterns) (split_ws content_text)"

definition spec_ui_word_share_exceeds_30 :: "string \<Rightarrow> bool" where
  "spec_ui_word_share_exceeds_30 content_text =
     (10 * length (spec_ui_words content_text) > 3 * length (split_ws content_text))"

section \<open>Example data\<close>

definition web_hit :: "string \<Rightarrow> SearchResult" where
  "web_hit u = \<lparr>title = ''Page '' @ u, url = u, snippet = ''snippet'',
                source_type = ''web'', metadata = None\<rparr>"

definition academic_hit :: "string \<Rightarrow> string \<Rightarrow> SearchResult" where
  "academic_hit u abstract =
     \<lparr>title = ''Paper '' @ u, url = u, snippet = ''snippet'', source_type = ''academic'',
      metadata = Some [''authors'' \<mapsto> ''A. Author'', ''year'' \<mapsto> ''2020'',
                       ''venue'' \<mapsto> [], ''abstract'' \<mapsto> abstract]\<rparr>"

definition example_query :: "SearchSource \<Rightarrow> int \<Rightarrow> ResearchQuery" where
  "example_query src n = \<lparr>query = ''test'', sources = src, num_results = n\<rparr>"

definition prose :: string where
  "prose = ''The first sentence of this page is long enough. The second sentence is long enough too.''"

definition good_content :: "string \<Rightarrow> ExtractedContent" where
  "good_content u = \<lparr>c_title = ''Page '' @ u, c_url = u, description = ''A page'',
                     content = prose, extraction_time = 0, error = None\<rparr>"

definition invalid_content :: "string \<Rightarrow> ExtractedContent" where
  "invalid_content u =
     \<lparr>c_title = ''Page '' @ u, c_url = u, description = ''A page'', content = [],
      extraction_time = 0,
      error = Some ''Content validation failed - low quality or restricted content''\<rparr>"

text \<open>The scenario of four candidates: \<open>a\<close>, \<open>c\<close> and \<open>d\<close> resolve to good content, \<open>b\<close> does not.\<close>

definition scenario_resolver :: resolver where
  "scenario_resolver it i source =
     (if url source = ''b'' then Res (invalid_content ''b'') else Res (good_content (url source)))"

definition scenario_candidates :: "SearchResult list" where
  "scenario_candidates = [web_hit ''a'', web_hit ''b'', web_hit ''c'', web_hit ''d'']"

text \<open>A network on which every request fails, and one that serves a PDF for every url.\<close>

definition dead_net :: "nat \<Rightarrow> nat \<Rightarrow> string \<Rightarrow> fetch_outcome" where
  "dead_net it i u = FetchRaised ''connection refused''"

definition pdf_net :: "nat \<Rightarrow> nat \<Rightarrow> string \<Rightarrow> fetch_outcome" where
  "pdf_net it i u = FetchResponse (Some ''application/pdf'') (Inl ''not parsed'')"

definition prose_net :: "nat \<Rightarrow> nat \<Rightarrow> string \<Rightarrow> fetch_outcome" where
  "prose_net it i u =
     FetchResponse (Some ''text/html'')
       (Inr \<lparr>p_title = ''Page'', p_description = ''A page'', p_content = prose\<rparr>)"

definition three_candidates :: "SearchResult list" where
  "three_candidates = [web_hit ''a'', web_hit ''b'', web_hit ''c'']"

definition zero_clock :: "nat \<Rightarrow> nat \<Rightarrow> nat" where
  "zero_clock it i = 0"

definition small_result :: ResearchResult where
  "small_result =
     \<lparr>r_query = example_query WEB 1, r_search_results = [], r_extracted_content = [],
      r_summary = ''Summary'', r_total_sources = 0, r_execution_time = 1, r_errors = []\<rparr>"

definition too_many_requests :: "nat \<Rightarrow> get_outcome" where
  "too_many_requests attempt =
     GetResponse \<lparr>status_code = 429, reason_phrase = ''Too Many Requests'', body_results = []\<rparr>"

definition navigation_text :: string where
  "navigation_text = ''menu search login menu search login . menu search login menu search login''"

section \<open>Properties of the source balancer\<close>

lemma filter_take_length_le: "length (filter P (take m xs)) \<le> length (filter P xs)"
proof -
  have "length (filter P xs) = length (filter P (take m xs @ drop m xs))" by simp
  also have "\<dots> = length (filter P (take m xs)) + length (filter P (drop m xs))"
    by (simp only: filter_append length_append)
  finally show ?thesis by simp
qed

lemma filter_slice_to_length_le: "length (filter P (slice_to xs k)) \<le> length (filter P xs)"
  by (simp add: slice_to_def filter_take_length_le)

lemma length_slice_to_le: "length (slice_to xs k) \<le> length xs"
  by (auto simp: slice_to_def)

lemma interleave_web_count:
  assumes "\<forall>x\<in>set a. \<not> is_web x"
    and "int (length (filter is_web combined)) \<le> mpt"
  shows "int (length (filter is_web (interleave idx w a n mpt combined))) \<le> mpt"
  using assms
proof (induction idx arbitrary: combined)
  case Nil
  then show ?case by simp
next
  case (Cons i rest)
  show ?case
  proof (cases "int (length combined) \<ge> n")
    case True
    then show ?thesis using Cons.prems by simp
  next
    case False
    define c1 where "c1 = (if i < length w \<and> int (length (filter is_web combined)) < mpt
                  then combined @ [w ! i] else combined)"
    define c2 where "c2 = (if i < length a \<and> int (length (filter is_academic c1)) < mpt
                  then c1 @ [a ! i] else c1)"
    have h1: "int (length (filter is_web c1)) \<le> mpt"
      using Cons.prems(2) by (simp add: c1_def)
    have h2: "int (length (filter is_web c2)) \<le> mpt"
      using h1 Cons.prems(1) by (simp add: c2_def)
    have "interleave (i # rest) w a n mpt combined = interleave rest w a n mpt c2"
      using False by (simp add: c1_def c2_def Let_def)
    then show ?thesis using Cons.IH[OF Cons.prems(1) h2] by simp
  qed
qed

lemma interleave_academic_count:
  assumes "\<forall>x\<in>set w. \<not> is_academic x"
    and "int (length (filter is_academic combined)) \<le> mpt"
  shows "int (length (filter is_academic (interleave idx w a n mpt combined))) \<le> mpt"
  using assms
proof (induction idx arbitrary: combined)
  case Nil
  then show ?case by simp
next
  case (Cons i rest)
  show ?case
  proof (cases "int (length combined) \<ge> n")
    case True
    then show ?thesis using Cons.prems by simp
  next
    case False
    define c1 where "c1 = (if i < length w \<and> int (length (filter is_web combined)) < mpt
                  then combined @ [w ! i] else combined)"
    define c2 where "c2 = (if i < length a \<and> int (length (filter is_academic c1)) < mpt
                  then c1 @ [a ! i] else c1)"
    have h1: "int (length (filter is_academic c1)) \<le> mpt"
      using Cons.prems by (simp add: c1_def)
    have h2: "int (length (filter is_academic c2)) \<le> mpt"
      using h1 by (simp add: c2_def)
    have "interleave (i # rest) w a n mpt combined = interleave rest w a n mpt c2"
      using False by (simp add: c1_def c2_def Let_def)
    then show ?thesis using Cons.IH[OF Cons.prems(1) h2] by simp
  qed
qed

lemma interleave_provenance:
  assumes "\<forall>x\<in>set w. is_web x" and "\<forall>x\<in>set a. is_academic x"
    and "\<forall>x\<in>set combined. is_web x \<or> is_academic x"
  shows "\<forall>x\<in>set (interleave idx w a n mpt combined). is_web x \<or> is_academic x"
  using assms(3)
proof (induction idx arbitrary: combined)
  case Nil
  then show ?case by simp
next
  case (Cons i rest)
  show ?case
  proof (cases "int (length combined) \<ge> n")
    case True
    then show ?thesis using Cons.prems by simp
  next
    case False
    define c1 where "c1 = (if i < length w \<and> int (length (filter is_web combined)) < mpt
                  then combined @ [w ! i] else combined)"
    define c2 where "c2 = (if i < length a \<and> int (length (filter is_academic c1)) < mpt
                  then c1 @ [a ! i] else c1)"
    have h1: "\<forall>x\<in>set c1. is_web x \<or> is_academic x"
      using Cons.prems assms(1) by (auto simp: c1_def)
    have h2: "\<forall>x\<in>set c2. is_web x \<or> is_academic x"
      using h1 assms(2) by (auto simp: c2_def)
    have "interleave (i # rest) w a n mpt combined = interleave rest w a n mpt c2"
      using False by (simp add: c1_def c2_def Let_def)
    then show ?thesis using Cons.IH[OF h2] by simp
  qed
qed

lemma length_by_provenance:
  "\<forall>x\<in>set xs. is_web x \<or> is_academic x \<Longrightarrow>
   length xs = length (filter is_web xs) + length (filter is_academic xs)"
  by (induction xs) (auto simp: is_web_def is_academic_def)


text \<open>
  C8.  For scope "both" the balancer returns at most \<open>max(1, target div 2)\<close> candidates
  of each provenance, hence at most twice that many in all; for a target of 5 it returns
  at most 4 candidates, however many of each provenance are available.
\<close>

theorem C8_balancer_caps_each_provenance:
  assumes "sources q = BOTH"
  shows "int (length (filter is_web (select_sources_for_extraction rs q))) \<le> max 1 (num_results q div 2)
       \<and> int (length (filter is_academic (select_sources_for_extraction rs q))) \<le> max 1 (num_results q div 2)
       \<and> int (length (select_sources_for_extraction rs q)) \<le> 2 * max 1 (num_results q div 2)
       \<and> (num_results q = 5 \<longrightarrow> length (select_sources_for_extraction rs q) \<le> 4)"
proof -
  define w where "w = filter is_web rs"
  define a where "a = filter is_academic rs"
  define mpt where "mpt = max 1 (num_results q div 2)"
  define combined where
    "combined = interleave [0 ..< max (length w) (length a)] w a (num_results q) mpt []"
  have sel: "select_sources_for_extraction rs q = slice_to combined (num_results q)"
    using assms by (simp add: select_sources_for_extraction_def Let_def w_def a_def mpt_def combined_def)
  have aw: "\<forall>x\<in>set a. \<not> is_web x" and wa: "\<forall>x\<in>set w. \<not> is_academic x"
    by (auto simp: a_def w_def is_web_def is_academic_def)
  have mpt0: "0 \<le> mpt" by (simp add: mpt_def)
  have cw: "int (length (filter is_web combined)) \<le> mpt"
    unfolding combined_def by (rule interleave_web_count[OF aw]) (simp add: mpt0)
  have ca: "int (length (filter is_academic combined)) \<le> mpt"
    unfolding combined_def by (rule interleave_academic_count[OF wa]) (simp add: mpt0)
  have prov: "\<forall>x\<in>set combined. is_web x \<or> is_academic x"
    unfolding combined_def by (rule interleave_provenance) (simp_all add: w_def a_def)
  have sw: "int (length (filter is_web (slice_to combined (num_results q)))) \<le> mpt"
    using cw filter_slice_to_length_le[of is_web combined "num_results q"] by linarith
  have sa: "int (length (filter is_academic (slice_to combined (num_results q)))) \<le> mpt"
    using ca filter_slice_to_length_le[of is_academic combined "num_results q"] by linarith
  have "length combined = length (filter is_web combined) + length (filter is_academic combined)"
    by (rule length_by_provenance[OF prov])
  then have lc: "int (length combined) \<le> 2 * mpt" using cw ca by linarith
  have ls: "int (length (slice_to combined (num_results q))) \<le> 2 * mpt"
    using lc length_slice_to_le[of combined "num_results q"] by linarith
  have five: "num_results q = 5 \<longrightarrow> length (slice_to combined (num_results q)) \<le> 4"
    using ls by (auto simp: mpt_def)
  show ?thesis using sw sa ls five by (simp add: sel mpt_def)
qed


text \<open>Five web and five academic candidates with a target of 5: four are selected.\<close>

theorem C8_balancer_caps_each_provenance_witness:
  "sources (example_query BOTH 5) = BOTH \<and> num_results (example_query BOTH 5) = 5
   \<and> length (select_sources_for_extraction
        [web_hit ''w0'', web_hit ''w1'', web_hit ''w2'', web_hit ''w3'', web_hit ''w4'',
         academic_hit ''a0'' [], academic_hit ''a1'' [], academic_hit ''a2'' [],
         academic_hit ''a3'' [], academic_hit ''a4'' []]
        (example_query BOTH 5)) \<le> 4"
  using C8_balancer_caps_each_provenance [of "example_query BOTH 5"
         "[web_hit ''w0'', web_hit ''w1'', web_hit ''w2'', web_hit ''w3'', web_hit ''w4'',
           academic_hit ''a0'' [], academic_hit ''a1'' [], academic_hit ''a2'' [],
           academic_hit ''a3'' [], academic_hit ''a4'' []]"]
  by (simp add: example_query_def)

lemma upt4: "[0..<4] = [0, Suc 0, 2, 3]"
  by (simp add: upt_rec)

text \<open>
  C7.  With scope "both", four web candidates followed by four academic ones and a target
  of 4, the balancer returns exactly four candidates, web and academic in turn, two of
  each, which is the cap \<open>max(1, 4 div 2)\<close>.
\<close>

theorem C7_balancer_interleaves_four:
  assumes "sources q = BOTH" and "num_results q = 4"
    and "is_web w0" "is_web w1" "is_web w2" "is_web w3"
    and "is_academic a0" "is_academic a1" "is_academic a2" "is_academic a3"
  shows "select_sources_for_extraction [w0, w1, w2, w3, a0, a1, a2, a3] q = [w0, a0, w1, a1]
       \<and> length (select_sources_for_extraction [w0, w1, w2, w3, a0, a1, a2, a3] q) = 4
       \<and> map source_type (select_sources_for_extraction [w0, w1, w2, w3, a0, a1, a2, a3] q)
           = [''web'', ''academic'', ''web'', ''academic'']
       \<and> int (length (filter is_web (select_sources_for_extraction [w0, w1, w2, w3, a0, a1, a2, a3] q)))
           \<le> max 1 (num_results q div 2)
       \<and> int (length (filter is_academic (select_sources_for_extraction [w0, w1, w2, w3, a0, a1, a2, a3] q)))
           \<le> max 1 (num_results q div 2)
       \<and> max 1 (num_results q div 2) = 2"
proof -
  have nw: "\<not> is_web a0" "\<not> is_web a1" "\<not> is_web a2" "\<not> is_web a3"
    and na: "\<not> is_academic w0" "\<not> is_academic w1" "\<not> is_academic w2" "\<not> is_academic w3"
    using assms by (simp_all add: is_web_def is_academic_def)
  have sel: "select_sources_for_extraction [w0, w1, w2, w3, a0, a1, a2, a3] q = [w0, a0, w1, a1]"
    using assms nw na by (simp add: select_sources_for_extraction_def Let_def upt4 slice_to_def)
  show ?thesis
    using assms nw na by (simp add: sel) (simp add: is_web_def is_academic_def)
qed

theorem C7_balancer_interleaves_four_witness:
  "sources (example_query BOTH 4) = BOTH \<and> num_results (example_query BOTH 4) = 4
   \<and> select_sources_for_extraction
        [web_hit ''w0'', web_hit ''w1'', web_hit ''w2'', web_hit ''w3'',
         academic_hit ''a0'' [], academic_hit ''a1'' [], academic_hit ''a2'' [], academic_hit ''a3'' []]
        (example_query BOTH 4)
      = [web_hit ''w0'', academic_hit ''a0'' [], web_hit ''w1'', academic_hit ''a1'' []]"
  using C7_balancer_interleaves_four [of "example_query BOTH 4"
         "web_hit ''w0''" "web_hit ''w1''" "web_hit ''w2''" "web_hit ''w3''"
         "academic_hit ''a0'' []" "academic_hit ''a1'' []" "academic_hit ''a2'' []" "academic_hit ''a3'' []"]
  by (simp add: example_query_def is_web_def is_academic_def web_hit_def academic_hit_def)

section \<open>Properties of the extraction orchestrator\<close>

lemma filter_batch_source_index:
  "source_index (filter_batch n items st) = source_index st"
  by (induction n items st rule: filter_batch.induct)
     (simp_all add: Let_def split: gathered.splits)

lemma filter_batch_length_bound:
  "int (length (valid_content st)) < n \<Longrightarrow>
   int (length (valid_content (filter_batch n items st))) \<le> n"
proof (induction items arbitrary: st)
  case Nil
  then show ?case by simp
next
  case (Cons item rest)
  obtain source outcome where item: "item = (source, outcome)" by (cases item)
  show ?case
  proof (cases outcome)
    case (Exc msg)
    then show ?thesis using Cons.prems item by (simp add: Let_def Cons.IH)
  next
    case (Res c)
    then show ?thesis using Cons.prems item by (auto simp: Let_def intro!: Cons.IH)
  qed
qed

lemma iteration_not_Raise:
  assumes "sr = [] \<or> 0 < bs" and "loop_guard sr n st"
  shows "iteration resolve sr n bs bal st \<noteq> Raise e"
proof -
  have "0 < bs" using assms by (auto simp: loop_guard_def)
  then show ?thesis
    by (auto simp: iteration_def process_batch_def Let_def)
qed

lemma while_loop_rule_aux:
  "sr = [] \<or> 0 < bs \<Longrightarrow>
   \<forall>s s'. P s \<and> loop_guard sr n s \<and> iteration resolve sr n bs bal s = Continue s' \<longrightarrow> P s' \<Longrightarrow>
   \<forall>s s'. P s \<and> loop_guard sr n s \<and> iteration resolve sr n bs bal s = Break s' \<longrightarrow> Q s' \<Longrightarrow>
   \<forall>s. P s \<and> \<not> loop_guard sr n s \<longrightarrow> Q s \<Longrightarrow>
   P st \<Longrightarrow>
   \<exists>st'. while_loop resolve sr n bs bal st = Inr st' \<and> Q st'"
proof (induction resolve sr n bs bal st rule: while_loop.induct)
  case (1 resolve sr n bs bal st)
  note bs = "1.prems"(1) and cont = "1.prems"(2) and brk = "1.prems"(3)
    and fin = "1.prems"(4) and init = "1.prems"(5)
  show ?case
  proof (cases "loop_guard sr n st")
    case False
    then have "Q st" using init fin by blast
    then show ?thesis using False by (simp add: while_loop.simps)
  next
    case True
    show ?thesis
    proof (cases "iteration resolve sr n bs bal st")
      case (Continue s')
      then have "P s'" using cont init True by blast
      then have "\<exists>st'. while_loop resolve sr n bs bal s' = Inr st' \<and> Q st'"
        using "1.IH"[OF True Continue bs cont brk fin] by blast
      then show ?thesis using True Continue by (simp add: while_loop.simps)
    next
      case (Break s')
      then have "Q s'" using brk init True by blast
      then show ?thesis using True Break by (simp add: while_loop.simps)
    next
      case (Raise e)
      then show ?thesis using iteration_not_Raise[OF bs True] by blast
    qed
  qed
qed

lemma while_loop_rule:
  assumes "sr = [] \<or> 0 < bs"
    and "P st"
    and "\<And>s s'. P s \<Longrightarrow> loop_guard sr n s \<Longrightarrow>
                 iteration resolve sr n bs bal s = Continue s' \<Longrightarrow> P s'"
    and "\<And>s s'. P s \<Longrightarrow> loop_guard sr n s \<Longrightarrow>
                 iteration resolve sr n bs bal s = Break s' \<Longrightarrow> Q s'"
    and "\<And>s. P s \<Longrightarrow> \<not> loop_guard sr n s \<Longrightarrow> Q s"
  shows "\<exists>st'. while_loop resolve sr n bs bal st = Inr st' \<and> Q st'"
  by (rule while_loop_rule_aux[where P = P]) (use assms in blast)+

lemma process_batch_valid_bound:
  assumes "int (length (valid_content st)) < n"
    and "process_batch resolve n bs batch st = Continue st' \<or>
         process_batch resolve n bs batch st = Break st'"
  shows "int (length (valid_content st')) \<le> n"
proof -
  have "int (length (valid_content
          (filter_batch n items (st\<lparr>logged := l, gathered_batches := g\<rparr>)))) \<le> n" for items l g
    using assms(1) by (intro filter_batch_length_bound) simp
  then show ?thesis
    using assms by (auto simp: process_batch_def Let_def split: if_splits)
qed

lemma iteration_valid_bound:
  assumes "int (length (valid_content st)) < n"
    and "iteration resolve sr n bs bal st = Continue st' \<or>
         iteration resolve sr n bs bal st = Break st'"
  shows "int (length (valid_content st')) \<le> n"
proof -
  have "int (length (valid_content (st\<lparr>iteration_count := iteration_count st + 1\<rparr>))) < n"
    using assms(1) by simp
  from process_batch_valid_bound[OF this] show ?thesis
    using assms by (auto simp: iteration_def Let_def split: if_splits)
qed

lemma iteration_Continue_bound:
  "loop_guard sr n st \<Longrightarrow> iteration resolve sr n bs bal st = Continue st' \<Longrightarrow>
   int (length (valid_content st')) \<le> n"
  using iteration_valid_bound[of st n resolve sr bs bal st'] by (simp add: loop_guard_def)

lemma iteration_Break_bound:
  "loop_guard sr n st \<Longrightarrow> iteration resolve sr n bs bal st = Break st' \<Longrightarrow>
   int (length (valid_content st')) \<le> n"
  using iteration_valid_bound[of st n resolve sr bs bal st'] by (simp add: loop_guard_def)

lemma batch_size_positive: "sr = [] \<or> 0 < min 3 (length sr)"
  by (cases sr) simp_all

lemma valid_content_final:
  assumes "while_loop resolve sr (num_results q) (min 3 (length sr))
             (select_sources_for_extraction sr q)
             (initial_state errs (num_results q) (length sr)) = Inr st"
  shows "\<exists>st'. extract_valid_content resolve sr q errs = Inr st'
           \<and> valid_content st' = valid_content st
           \<and> iteration_count st' = iteration_count st
           \<and> tried_sources st' = tried_sources st
           \<and> errors_acc st' = errors_acc st
           \<and> source_index st' = source_index st
           \<and> gathered_batches st' = gathered_batches st
           \<and> error_or_skip_entries st' = error_or_skip_entries st"
  using assms by (simp add: extract_valid_content_def Let_def error_or_skip_entries_def)

text \<open>
  C1.  For a valid query (one that the constructor accepts, so with a target count from 1
  to 5), any list of candidates and any outcomes of the resolver, the orchestrator returns,
  and the list of accepted contents it returns is no longer than the target count.
\<close>

theorem C1_accepted_at_most_target:
  assumes "ResearchQuery_init qtext src n = Inr q"
  shows "\<exists>st. extract_valid_content resolve candidates q errs = Inr st
             \<and> int (length (valid_content st)) \<le> num_results q"
proof -
  have n: "0 \<le> num_results q"
    using assms by (auto simp: ResearchQuery_init_def split: if_splits)
  have "\<exists>st. while_loop resolve candidates (num_results q) (min 3 (length candidates))
             (select_sources_for_extraction candidates q)
             (initial_state errs (num_results q) (length candidates)) = Inr st
           \<and> int (length (valid_content st)) \<le> num_results q"
  proof (rule while_loop_rule[where P = "\<lambda>s. int (length (valid_content s)) \<le> num_results q"])
    show "candidates = [] \<or> 0 < min 3 (length candidates)" by (rule batch_size_positive)
    show "int (length (valid_content (initial_state errs (num_results q) (length candidates)))) \<le> num_results q"
      using n by (simp add: initial_state_def)
  next
    fix s s'
    assume "loop_guard candidates (num_results q) s"
      and "iteration resolve candidates (num_results q) (min 3 (length candidates))
             (select_sources_for_extraction candidates q) s = Continue s'"
    then show "int (length (valid_content s')) \<le> num_results q"
      by (rule iteration_Continue_bound)
  next
    fix s s'
    assume "loop_guard candidates (num_results q) s"
      and "iteration resolve candidates (num_results q) (min 3 (length candidates))
             (select_sources_for_extraction candidates q) s = Break s'"
    then show "int (length (valid_content s')) \<le> num_results q"
      by (rule iteration_Break_bound)
  qed simp
  then obtain st where st: "while_loop resolve candidates (num_results q) (min 3 (length candidates))
             (select_sources_for_extraction candidates q)
             (initial_state errs (num_results q) (length candidates)) = Inr st"
    and le: "int (length (valid_content st)) \<le> num_results q" by blast
  from valid_content_final[OF st] le show ?thesis by auto
qed

lemma query_test_web_2: "ResearchQuery_init ''test'' (Member WEB) 2 = Inr (example_query WEB 2)"
  by code_simp

theorem C1_accepted_at_most_target_witness:
  "ResearchQuery_init ''test'' (Member WEB) 2 = Inr (example_query WEB 2)
   \<and> (\<exists>st. extract_valid_content scenario_resolver scenario_candidates (example_query WEB 2) [] = Inr st
          \<and> int (length (valid_content st)) \<le> num_results (example_query WEB 2))"
  using C1_accepted_at_most_target [OF query_test_web_2, of scenario_resolver scenario_candidates "[]"] query_test_web_2
  by simp

lemma filter_batch_all_rejected:
  assumes "\<forall>item\<in>set items. rejected (snd item)"
  shows "valid_content (filter_batch n items st) = valid_content st
       \<and> length (error_or_skip_entries (filter_batch n items st))
           = length (error_or_skip_entries st) + length items"
  using assms
proof (induction items arbitrary: st)
  case Nil
  then show ?case by simp
next
  case (Cons item rest)
  obtain source outcome where item: "item = (source, outcome)" by (cases item)
  have rest: "\<forall>item\<in>set rest. rejected (snd item)" using Cons.prems by simp
  show ?case
  proof (cases outcome)
    case (Exc msg)
    then show ?thesis using item Cons.IH[OF rest]
      by (simp add: Let_def error_or_skip_entries_def)
  next
    case (Res c)
    then have "validation_failed c \<or> insufficient c"
      using Cons.prems item by (simp add: rejected_def)
    then show ?thesis using item Res Cons.IH[OF rest]
      by (auto simp: Let_def error_or_skip_entries_def)
  qed
qed

lemma batch_items_in:
  "\<forall>it i. \<forall>s\<in>set batch. R (resolve it i s) \<Longrightarrow>
   \<forall>item\<in>set (zip batch (map (\<lambda>(i, source). resolve it i source) (enumerate k batch))). R (snd item)"
  by (auto dest!: set_zip_rightD simp: in_set_enumerate_eq)

lemma process_batch_all_rejected:
  assumes "\<forall>it i. \<forall>s\<in>set batch. rejected (resolve it i s)"
    and "process_batch resolve n bs batch st = Continue st'"
  shows "valid_content st' = valid_content st
       \<and> source_index st' = source_index st + bs
       \<and> iteration_count st' = iteration_count st
       \<and> error_or_skip_entries st' \<noteq> []"
proof -
  define items where
    "items = zip batch (map (\<lambda>(i, source). resolve (iteration_count st) i source) (enumerate 0 batch))"
  define st1 where
    "st1 = st\<lparr>logged := logged st @
              [BatchInfo (source_index st div bs + 1) (length batch)
                 (n - int (length (valid_content st)))],
            gathered_batches := gathered_batches st @ [batch]\<rparr>"
  have ne: "batch \<noteq> []" using assms(2) by (auto simp: process_batch_def split: if_splits)
  have len: "length items = length batch" by (simp add: items_def)
  have rej: "\<forall>item\<in>set items. rejected (snd item)"
    unfolding items_def using batch_items_in[of batch rejected resolve] assms(1) by blast
  note fb = filter_batch_all_rejected[OF rej, of n st1]
  have "length (error_or_skip_entries (filter_batch n items st1)) \<ge> 1"
    using fb len ne by (cases batch) simp_all
  then have e: "error_or_skip_entries (filter_batch n items st1) \<noteq> []" by auto
  have v: "valid_content (filter_batch n items st1) = valid_content st"
    using fb by (simp add: st1_def)
  have si: "source_index (filter_batch n items st1) = source_index st"
    by (simp add: filter_batch_source_index st1_def)
  have ic: "iteration_count (filter_batch n items st1) = iteration_count st"
    by (simp add: filter_batch_iteration_count st1_def)
  have "st' = (let st3 = (filter_batch n items st1)\<lparr>source_index := source_index (filter_batch n items st1) + bs\<rparr>
               in if int (length (valid_content st3)) < n
                  then st3\<lparr>logged := logged st3 @
                         [NeedMore (n - int (length (valid_content st3))) (iteration_count st3)]\<rparr>
                  else st3)"
    using assms(2) ne by (auto simp: process_batch_def Let_def items_def st1_def split: if_splits)
  then show ?thesis using e v si ic
    by (auto simp: Let_def error_or_skip_entries_def)
qed

lemma process_batch_Break:
  assumes "process_batch resolve n bs batch st = Break st'"
  shows "batch = [] \<and> valid_content st' = valid_content st
       \<and> iteration_count st' = iteration_count st
       \<and> error_or_skip_entries st' = error_or_skip_entries st"
  using assms by (auto simp: process_batch_def Let_def error_or_skip_entries_def split: if_splits)

lemma iteration_all_rejected_Continue:
  assumes "\<forall>it i. \<forall>s\<in>set sr. rejected (resolve it i s)"
    and "set bal \<subseteq> set sr"
    and "iteration resolve sr n bs bal st = Continue st'"
  shows "valid_content st' = valid_content st
       \<and> source_index st' = source_index st + bs
       \<and> iteration_count st' = iteration_count st + 1
       \<and> error_or_skip_entries st' \<noteq> []"
proof -
  have r: "\<forall>it i. \<forall>s\<in>set batch. rejected (resolve it i s)" if "set batch \<subseteq> set sr" for batch
    using assms(1) that by blast
  have b1: "set (take bs bal) \<subseteq> set sr"
    using assms(2) set_take_subset[of bs bal] by blast
  have b2: "set (take bs (filter P sr)) \<subseteq> set sr" for P
    using set_take_subset[of bs "filter P sr"] by auto
  show ?thesis
    using assms(3) process_batch_all_rejected[OF r[OF b1]] process_batch_all_rejected[OF r[OF b2]]
    by (fastforce simp: iteration_def Let_def split: if_splits)
qed

lemma iteration_Break:
  assumes "iteration resolve sr n bs bal st = Break st'"
  shows "valid_content st' = valid_content st
       \<and> iteration_count st' = iteration_count st + 1
       \<and> error_or_skip_entries st' = error_or_skip_entries st
       \<and> (source_index st = 0 \<longrightarrow> take bs bal = [])"
  using assms
  by (auto simp: iteration_def Let_def error_or_skip_entries_def split: if_splits
           dest!: process_batch_Break)

lemma interleave_length_ge:
  "length combined \<le> length (interleave idx w a n mpt combined)"
proof (induction idx arbitrary: combined)
  case Nil
  then show ?case by simp
next
  case (Cons i rest)
  show ?case
  proof (cases "int (length combined) \<ge> n")
    case True
    then show ?thesis by simp
  next
    case False
    define c1 where "c1 = (if i < length w \<and> int (length (filter is_web combined)) < mpt
                  then combined @ [w ! i] else combined)"
    define c2 where "c2 = (if i < length a \<and> int (length (filter is_academic c1)) < mpt
                  then c1 @ [a ! i] else c1)"
    have "length combined \<le> length c2" by (simp add: c1_def c2_def)
    moreover have "interleave (i # rest) w a n mpt combined = interleave rest w a n mpt c2"
      using False by (simp add: c1_def c2_def Let_def)
    ultimately show ?thesis using Cons.IH[of c2] by simp
  qed
qed

lemma interleave_subset:
  "set combined \<subseteq> set w \<union> set a \<Longrightarrow>
   set (interleave idx w a n mpt combined) \<subseteq> set w \<union> set a"
proof (induction idx arbitrary: combined)
  case Nil
  then show ?case by simp
next
  case (Cons i rest)
  show ?case
  proof (cases "int (length combined) \<ge> n")
    case True
    then show ?thesis using Cons.prems by simp
  next
    case False
    define c1 where "c1 = (if i < length w \<and> int (length (filter is_web combined)) < mpt
                  then combined @ [w ! i] else combined)"
    define c2 where "c2 = (if i < length a \<and> int (length (filter is_academic c1)) < mpt
                  then c1 @ [a ! i] else c1)"
    have "set c1 \<subseteq> set w \<union> set a" using Cons.prems by (auto simp: c1_def)
    then have "set c2 \<subseteq> set w \<union> set a" by (auto simp: c2_def)
    moreover have "interleave (i # rest) w a n mpt combined = interleave rest w a n mpt c2"
      using False by (simp add: c1_def c2_def Let_def)
    ultimately show ?thesis using Cons.IH[of c2] by simp
  qed
qed

lemma set_slice_to_subset: "set (slice_to xs k) \<subseteq> set xs"
  by (simp add: slice_to_def set_take_subset)

lemma select_subset: "set (select_sources_for_extraction sr q) \<subseteq> set sr"
proof (cases "sources q = BOTH")
  case False
  then show ?thesis by (simp add: select_sources_for_extraction_def set_slice_to_subset)
next
  case True
  have "set (interleave idx (filter is_web sr) (filter is_academic sr) n mpt [])
          \<subseteq> set (filter is_web sr) \<union> set (filter is_academic sr)" for idx n mpt
    by (rule interleave_subset) simp
  then have "set (interleave idx (filter is_web sr) (filter is_academic sr) n mpt []) \<subseteq> set sr" for idx n mpt
    by fastforce
  then show ?thesis
    using True set_slice_to_subset
    by (fastforce simp: select_sources_for_extraction_def Let_def)
qed

lemma slice_to_nonempty: "1 \<le> k \<Longrightarrow> xs \<noteq> [] \<Longrightarrow> slice_to xs k \<noteq> []"
  by (cases xs) (auto simp: slice_to_def take_Cons' nat_eq_iff2)

lemma select_nonempty:
  assumes "1 \<le> num_results q" and "sr \<noteq> []"
    and "\<forall>s\<in>set sr. is_web s \<or> is_academic s"
  shows "select_sources_for_extraction sr q \<noteq> []"
proof (cases "sources q = BOTH")
  case False
  then show ?thesis using assms by (simp add: select_sources_for_extraction_def slice_to_nonempty)
next
  case True
  define w where "w = filter is_web sr"
  define a where "a = filter is_academic sr"
  define mpt where "mpt = max 1 (num_results q div 2)"
  define m where "m = max (length w) (length a)"
  have "w \<noteq> [] \<or> a \<noteq> []"
    using assms(2,3) by (cases sr) (auto simp: w_def a_def)
  then have "0 < length w \<or> 0 < length a" by simp
  then have m: "0 < m" unfolding m_def by linarith
  then have upt: "[0 ..< m] = 0 # [1 ..< m]" by (simp add: upt_rec)
  define c2 where "c2 = (if 0 < length a \<and> int (length (filter is_academic (if 0 < length w then [w ! 0] else []))) < mpt
            then (if 0 < length w then [w ! 0] else []) @ [a ! 0] else (if 0 < length w then [w ! 0] else []))"
  have mpt: "0 < mpt" by (simp add: mpt_def)
  have c2: "c2 \<noteq> []" using \<open>w \<noteq> [] \<or> a \<noteq> []\<close> mpt by (auto simp: c2_def)
  have "interleave [0 ..< m] w a (num_results q) mpt [] = interleave [1 ..< m] w a (num_results q) mpt c2"
    using assms(1) mpt by (simp add: upt c2_def Let_def)
  then have "interleave [0 ..< m] w a (num_results q) mpt [] \<noteq> []"
    using interleave_length_ge[of c2 "[1 ..< m]" w a "num_results q" mpt] c2 by auto
  then show ?thesis
    using True assms(1)
    by (simp add: select_sources_for_extraction_def Let_def w_def a_def mpt_def m_def slice_to_nonempty)
qed


text \<open>
  A run in which every candidate resolves to a rejected outcome, for a valid query and a
  non-empty list of web and academic candidates: it returns without raising, with no
  accepted content, after at most 5 iterations, and with an error or skip entry.
\<close>

lemma all_rejected_run_bounds:
  assumes q: "ResearchQuery_init qtext src n = Inr q"
    and ne: "candidates \<noteq> []"
    and prov: "\<forall>s\<in>set candidates. is_web s \<or> is_academic s"
    and rej: "\<forall>it i. \<forall>s\<in>set candidates. rejected (resolve it i s)"
  shows "\<exists>st. extract_valid_content resolve candidates q errs = Inr st
             \<and> valid_content st = []
             \<and> 1 \<le> iteration_count st \<and> iteration_count st \<le> 5
             \<and> (iteration_count st - 1) * min 3 (length candidates) < length candidates
             \<and> error_or_skip_entries st \<noteq> []"
proof -
  define bs where "bs = min 3 (length candidates)"
  define bal where "bal = select_sources_for_extraction candidates q"
  define st0 where "st0 = initial_state errs (num_results q) (length candidates)"
  define P where "P = (\<lambda>s. valid_content s = [] \<and> source_index s = bs * iteration_count s
      \<and> iteration_count s \<le> 5
      \<and> (iteration_count s = 0 \<or>
           ((iteration_count s - 1) * bs < length candidates \<and> error_or_skip_entries s \<noteq> [])))"
  define Q where "Q = (\<lambda>s. valid_content s = [] \<and> 1 \<le> iteration_count s \<and> iteration_count s \<le> 5
      \<and> (iteration_count s - 1) * bs < length candidates \<and> error_or_skip_entries s \<noteq> [])"
  have n: "1 \<le> num_results q"
    using q by (auto simp: ResearchQuery_init_def split: if_splits)
  have bs: "0 < bs" using ne by (cases candidates) (simp_all add: bs_def)
  have balne: "take bs bal \<noteq> []"
    using select_nonempty[OF n ne prov] bs by (cases bal) (simp_all add: bal_def take_Cons')
  have sub: "set bal \<subseteq> set candidates" unfolding bal_def by (rule select_subset)
  have "\<exists>st. while_loop resolve candidates (num_results q) bs bal st0 = Inr st \<and> Q st"
  proof (rule while_loop_rule[where P = P])
    show "candidates = [] \<or> 0 < bs" using bs by simp
    show "P st0" by (simp add: P_def st0_def initial_state_def)
  next
    fix s s'
    assume p: "P s" and g: "loop_guard candidates (num_results q) s"
      and it: "iteration resolve candidates (num_results q) bs bal s = Continue s'"
    note c = iteration_all_rejected_Continue[OF rej sub it]
    have "iteration_count s < 5" and "source_index s < length candidates"
      using g by (simp_all add: loop_guard_def max_iterations_def)
    then show "P s'" using p c by (simp add: P_def mult.commute)
  next
    fix s s'
    assume p: "P s" and g: "loop_guard candidates (num_results q) s"
      and it: "iteration resolve candidates (num_results q) bs bal s = Break s'"
    note b = iteration_Break[OF it]
    have lt: "iteration_count s < 5" and si: "source_index s < length candidates"
      using g by (simp_all add: loop_guard_def max_iterations_def)
    have "iteration_count s \<noteq> 0"
    proof
      assume "iteration_count s = 0"
      then have "source_index s = 0" using p by (simp add: P_def)
      then show False using b balne by simp
    qed
    then show "Q s'" using p b lt si by (simp add: P_def Q_def mult.commute)
  next
    fix s
    assume p: "P s" and g: "\<not> loop_guard candidates (num_results q) s"
    have "iteration_count s \<noteq> 0"
    proof
      assume z: "iteration_count s = 0"
      then have "loop_guard candidates (num_results q) s"
        using p n ne by (simp add: P_def loop_guard_def max_iterations_def)
      then show False using g by simp
    qed
    then show "Q s" using p by (simp add: P_def Q_def)
  qed
  then obtain st where st: "while_loop resolve candidates (num_results q) bs bal st0 = Inr st"
    and qs: "Q st" by blast
  from valid_content_final[OF st[unfolded bs_def bal_def st0_def]] qs
  show ?thesis by (auto simp: Q_def bs_def)
qed

text \<open>
  C10.  The claim is that with every candidate rejected the loop ends when the cap of 5
  iterations is reached or the candidates are exhausted.  The loop also ends when
  \<open>source_index\<close> reaches the number of candidates, and \<open>source_index\<close> grows by the
  batch size in every pass, also when the batch held fewer candidates.  With a target of
  1 and three candidates the first batch is \<open>[a]\<close>; after it \<open>source_index\<close> is 3, and
  the loop ends after one pass, the log saying that one more source is needed, with
  \<open>b\<close> and \<open>c\<close> never resolved.
\<close>

theorem C10_stops_with_untried_candidates:
  "rejected (service_resolver dead_net zero_clock 1 0 (web_hit ''a''))
   \<and> rejected (service_resolver dead_net zero_clock 2 0 (web_hit ''b''))
   \<and> rejected (service_resolver dead_net zero_clock 2 1 (web_hit ''c''))
   \<and> \<not> isl (extract_valid_content (service_resolver dead_net zero_clock) three_candidates
              (example_query WEB 1) [])
   \<and> valid_content (projr (extract_valid_content (service_resolver dead_net zero_clock)
        three_candidates (example_query WEB 1) [])) = []
   \<and> iteration_count (projr (extract_valid_content (service_resolver dead_net zero_clock)
        three_candidates (example_query WEB 1) [])) = 1
   \<and> source_index (projr (extract_valid_content (service_resolver dead_net zero_clock)
        three_candidates (example_query WEB 1) [])) = 3
   \<and> map (map url) (gathered_batches (projr (extract_valid_content
        (service_resolver dead_net zero_clock) three_candidates (example_query WEB 1) [])))
       = [[''a'']]
   \<and> tried_sources (projr (extract_valid_content (service_resolver dead_net zero_clock)
        three_candidates (example_query WEB 1) [])) = [''a'']
   \<and> logged (projr (extract_valid_content (service_resolver dead_net zero_clock)
        three_candidates (example_query WEB 1) []))
       = [TargetInfo 1 3, BatchInfo 1 1 1, SkippingInsufficient ''a'', NeedMore 1 1,
          ExtractionCompleted 0 1 1]"
  by code_simp

section \<open>Properties of the content resolver\<close>

lemma extract_url_error_empty:
  "error (extract_url fetch now u) \<noteq> None \<Longrightarrow> content (extract_url fetch now u) = []"
  by (auto simp: extract_url_def failed_content_def Let_def
           split: fetch_outcome.splits sum.splits if_splits)

lemma extract_from_source_error_empty:
  "error (extract_from_source fetch now source) \<noteq> None \<Longrightarrow>
   content (extract_from_source fetch now source) = []"
  by (auto simp: extract_from_source_def Let_def extract_url_error_empty
           split: option.splits if_splits)

lemma service_resolver_error_means_empty:
  "error_means_empty (service_resolver net clock it i source)"
  by (simp add: service_resolver_def error_means_empty_def extract_from_source_error_empty)

lemma filter_batch_no_error:
  assumes "list_all (\<lambda>c. error c = None) (valid_content st)"
    and "\<forall>item\<in>set items. error_means_empty (snd item)"
  shows "list_all (\<lambda>c. error c = None) (valid_content (filter_batch n items st))"
  using assms
proof (induction items arbitrary: st)
  case Nil
  then show ?case by simp
next
  case (Cons item rest)
  obtain source outcome where item: "item = (source, outcome)" by (cases item)
  have rest: "\<forall>item\<in>set rest. error_means_empty (snd item)" using Cons.prems by simp
  have ih: "list_all (\<lambda>c. error c = None) (valid_content (filter_batch n rest s))"
    if "list_all (\<lambda>c. error c = None) (valid_content s)" for s
    using Cons.IH[OF that rest] .
  show ?case
  proof (cases outcome)
    case (Exc msg)
    then show ?thesis using item Cons.prems(1) by (simp add: Let_def ih)
  next
    case (Res c)
    have ok: "\<not> insufficient c \<Longrightarrow> error c = None"
      using Cons.prems(2) item Res by (auto simp: error_means_empty_def insufficient_def)
    show ?thesis using item Res Cons.prems(1) ok
      by (simp add: Let_def ih)
  qed
qed

lemma process_batch_no_error:
  assumes "list_all (\<lambda>c. error c = None) (valid_content st)"
    and "\<forall>it i s. error_means_empty (resolve it i s)"
    and "process_batch resolve n bs batch st = Continue st' \<or>
         process_batch resolve n bs batch st = Break st'"
  shows "list_all (\<lambda>c. error c = None) (valid_content st')"
proof -
  have items: "\<forall>item\<in>set (zip batch (map (\<lambda>(i, source). resolve it i source) (enumerate 0 batch))).
                 error_means_empty (snd item)" for it
    using batch_items_in[of batch error_means_empty resolve] assms(2) by blast
  have "list_all (\<lambda>c. error c = None) (valid_content (filter_batch n
           (zip batch (map (\<lambda>(i, source). resolve it i source) (enumerate 0 batch)))
           (st\<lparr>logged := l, gathered_batches := g\<rparr>)))" for it l g
    using assms(1) by (intro filter_batch_no_error items) simp
  then show ?thesis
    using assms(1,3) by (auto simp: process_batch_def Let_def split: if_splits)
qed

lemma iteration_no_error:
  assumes "list_all (\<lambda>c. error c = None) (valid_content st)"
    and "\<forall>it i s. error_means_empty (resolve it i s)"
    and "iteration resolve sr n bs bal st = Continue st' \<or>
         iteration resolve sr n bs bal st = Break st'"
  shows "list_all (\<lambda>c. error c = None) (valid_content st')"
proof -
  have "list_all (\<lambda>c. error c = None) (valid_content (st\<lparr>iteration_count := iteration_count st + 1\<rparr>))"
    using assms(1) by simp
  from process_batch_no_error[OF this assms(2)] show ?thesis
    using assms(1,3) by (auto simp: iteration_def Let_def split: if_splits)
qed

text \<open>
  C6.  With the service's own resolver, on any network, every accepted content has no
  error: \<open>extract\<close> and \<open>extract_from_source\<close> give an empty body to every content
  that carries an error (from an exception or from failed validation), and the scan never
  accepts an empty body.  The accepted list is what \<open>research\<close> stores in the result.
\<close>

theorem C6_accepted_carry_no_error:
  "\<exists>st. extract_valid_content (service_resolver net clock) candidates q errs = Inr st
        \<and> (\<forall>c\<in>set (valid_content st). error c = None)"
proof -
  define P where "P = (\<lambda>s :: orch_state. list_all (\<lambda>c. error c = None) (valid_content s))"
  have ok: "\<forall>it i s. error_means_empty (service_resolver net clock it i s)"
    by (simp add: service_resolver_error_means_empty)
  have "\<exists>st. while_loop (service_resolver net clock) candidates (num_results q)
             (min 3 (length candidates)) (select_sources_for_extraction candidates q)
             (initial_state errs (num_results q) (length candidates)) = Inr st \<and> P st"
  proof (rule while_loop_rule[where P = P])
    show "candidates = [] \<or> 0 < min 3 (length candidates)" by (rule batch_size_positive)
    show "P (initial_state errs (num_results q) (length candidates))"
      by (simp add: P_def initial_state_def)
  next
    fix s s'
    assume "P s" and "iteration (service_resolver net clock) candidates (num_results q)
             (min 3 (length candidates)) (select_sources_for_extraction candidates q) s = Continue s'"
    then show "P s'" unfolding P_def using iteration_no_error[OF _ ok] by blast
  next
    fix s s'
    assume "P s" and "iteration (service_resolver net clock) candidates (num_results q)
             (min 3 (length candidates)) (select_sources_for_extraction candidates q) s = Break s'"
    then show "P s'" unfolding P_def using iteration_no_error[OF _ ok] by blast
  qed simp
  then obtain st where st: "while_loop (service_resolver net clock) candidates (num_results q)
             (min 3 (length candidates)) (select_sources_for_extraction candidates q)
             (initial_state errs (num_results q) (length candidates)) = Inr st"
    and p: "P st" by blast
  from valid_content_final[OF st] p show ?thesis by (auto simp: P_def list_all_iff)
qed

lemma run_prose:
  "\<not> isl (extract_valid_content (service_resolver prose_net zero_clock) [web_hit ''a'']
            (example_query WEB 1) [])
   \<and> valid_content (projr (extract_valid_content (service_resolver prose_net zero_clock)
          [web_hit ''a''] (example_query WEB 1) [])) =
       [\<lparr>c_title = ''Page'', c_url = ''a'', description = ''A page'',
         content = prose, extraction_time = 0, error = None\<rparr>]"
  by code_simp

theorem C6_accepted_carry_no_error_witness:
  "\<exists>st c. extract_valid_content (service_resolver prose_net zero_clock) [web_hit ''a'']
          (example_query WEB 1) [] = Inr st
        \<and> valid_content st = [c]
        \<and> content c = prose
        \<and> error c = None"
  using C6_accepted_carry_no_error [of prose_net zero_clock "[web_hit ''a'']" "example_query WEB 1" "[]"]
    run_prose
  by (cases "extract_valid_content (service_resolver prose_net zero_clock) [web_hit ''a'']
               (example_query WEB 1) []") auto

text \<open>
  C9, as amended.  When the content-type header of the response names a PDF, the resolver
  returns, whatever parsing the text would give or raise, the placeholder result: title
  "PDF Document", no error, and as body the fixed notice of 54 characters that says the
  contents cannot be extracted, which holds none of the document's text.
\<close>

theorem C9_pdf_placeholder:
  assumes "fetch u = FetchResponse (Some header) parsed"
    and "contains ''application/pdf'' (lower header)"
  shows "extract_url fetch now u =
           \<lparr>c_title = ''PDF Document'', c_url = u,
            description = ''PDF document - contents cannot be extracted directly'',
            content = ''[PDF document - contents cannot be extracted directly]'',
            extraction_time = now, error = None\<rparr>
       \<and> error (extract_url fetch now u) = None
       \<and> length (content (extract_url fetch now u)) = 54"
  using assms by (simp add: extract_url_def)

theorem C9_pdf_placeholder_witness:
  "pdf_net 0 0 ''p.pdf'' = FetchResponse (Some ''application/pdf'') (Inl ''not parsed'')
   \<and> contains ''application/pdf'' (lower ''application/pdf'')
   \<and> error (extract_url (pdf_net 0 0) 7 ''p.pdf'') = None
   \<and> content (extract_url (pdf_net 0 0) 7 ''p.pdf'')
        = ''[PDF document - contents cannot be extracted directly]''"
proof -
  have a: "pdf_net 0 0 ''p.pdf'' = FetchResponse (Some ''application/pdf'') (Inl ''not parsed'')"
    by (simp add: pdf_net_def)
  have b: "contains ''application/pdf'' (lower ''application/pdf'')"
    by code_simp
  show ?thesis
    using C9_pdf_placeholder [of "pdf_net 0 0" "''p.pdf''" "''application/pdf''" "Inl ''not parsed''" 7] a b
    by simp
qed

text \<open>
  C9 as stated fails: the body of the placeholder is not empty and is not what the
  orchestrator's test (lines 170 to 175) calls insufficient, so a run on a PDF
  accepts the placeholder as content.
\<close>

theorem C9_pdf_placeholder_counterexample:
  "content (extract_url (pdf_net 0 0) 0 ''p.pdf'') \<noteq> []
   \<and> \<not> insufficient (extract_url (pdf_net 0 0) 0 ''p.pdf'')
   \<and> acceptable (service_resolver pdf_net zero_clock 1 0 (web_hit ''p.pdf''))
   \<and> valid_content (projr (extract_valid_content (service_resolver pdf_net zero_clock)
        [web_hit ''p.pdf''] (example_query WEB 1) []))
      = [extract_url (pdf_net 0 0) 0 ''p.pdf'']"
  by code_simp

section \<open>The scenario of four candidates\<close>

lemma while_loop_Continue:
  "loop_guard sr n st \<Longrightarrow> iteration resolve sr n bs bal st = Continue st' \<Longrightarrow>
   while_loop resolve sr n bs bal st = while_loop resolve sr n bs bal st'"
  by (subst while_loop.simps) simp

lemma while_loop_exit:
  "\<not> loop_guard sr n st \<Longrightarrow> while_loop resolve sr n bs bal st = Inr st"
  by (subst while_loop.simps) simp

lemma upt2: "[0..<2] = [0, Suc 0]"
  by (simp add: upt_rec)

text \<open>
  C3, as amended.  With a target of 2, batch size 3 and candidates \<open>[a, b, c, d]\<close> of
  distinct urls, where \<open>a\<close> and \<open>c\<close> resolve to acceptable content and \<open>b\<close> to
  rejected content, the first batch is the balancer's selection, which holds two
  candidates.  With a scope of one provenance it is \<open>[a, b]\<close>: the content of \<open>a\<close> is
  accepted, a second batch \<open>[c, d]\<close> is issued, the content of \<open>c\<close> is accepted and
  the scan stops before \<open>d\<close>.  With scope "both", \<open>a\<close> and \<open>b\<close> from the web and
  \<open>c\<close> and \<open>d\<close> academic, it is \<open>[a, c]\<close>: both contents are accepted and the loop
  stops before a second batch.  In both cases the accepted list is the contents of
  \<open>a\<close> and \<open>c\<close> in that order.
\<close>

theorem C3_two_batches_amended:
  assumes target: "num_results q = 2"
    and urls: "distinct [url a, url b, url c, url d]"
    and ra: "\<forall>it i. resolve it i a = Res ca" and va: "acceptable (Res ca)"
    and rb: "\<forall>it i. rejected (resolve it i b)"
    and rc: "\<forall>it i. resolve it i c = Res cc" and vc: "acceptable (Res cc)"
  shows "(sources q \<noteq> BOTH \<longrightarrow>
           (\<exists>st. extract_valid_content resolve [a, b, c, d] q errs = Inr st
               \<and> gathered_batches st = [[a, b], [c, d]]
               \<and> valid_content st = [ca, cc]
               \<and> iteration_count st = 2
               \<and> set (tried_sources st) = {url a, url b, url c}))
       \<and> (sources q = BOTH \<and> is_web a \<and> is_web b \<and> is_academic c \<and> is_academic d \<longrightarrow>
           (\<exists>st. extract_valid_content resolve [a, b, c, d] q errs = Inr st
               \<and> gathered_batches st = [[a, c]]
               \<and> valid_content st = [ca, cc]
               \<and> iteration_count st = 1
               \<and> set (tried_sources st) = {url a, url c}))"
proof -
  define st0 where "st0 = initial_state errs 2 4"
  have a_ok: "\<not> validation_failed ca" "\<not> insufficient ca"
    and c_ok: "\<not> validation_failed cc" "\<not> insufficient cc"
    using va vc by (simp_all add: acceptable_def)
  have ne: "url c \<noteq> url a" "url c \<noteq> url b" "url d \<noteq> url a" "url d \<noteq> url b"
    "url a \<noteq> url b" "url d \<noteq> url c"
    using urls by auto
  have g0: "loop_guard [a, b, c, d] 2 st0"
    by (simp add: loop_guard_def st0_def initial_state_def max_iterations_def)
  have final: "\<exists>st'. extract_valid_content resolve [a, b, c, d] q errs = Inr st'
           \<and> valid_content st' = valid_content st
           \<and> iteration_count st' = iteration_count st
           \<and> tried_sources st' = tried_sources st
           \<and> gathered_batches st' = gathered_batches st"
    if w: "while_loop resolve [a, b, c, d] 2 3 (select_sources_for_extraction [a, b, c, d] q) st0 = Inr st"
    for st
  proof -
    have "min 3 (length [a, b, c, d]) = 3" and "length [a, b, c, d] = 4" by simp_all
    then have "while_loop resolve [a, b, c, d] (num_results q) (min 3 (length [a, b, c, d]))
               (select_sources_for_extraction [a, b, c, d] q)
               (initial_state errs (num_results q) (length [a, b, c, d])) = Inr st"
      using w by (simp only: target st0_def)
    from valid_content_final[OF this] show ?thesis by blast
  qed
  have single: "\<exists>st. extract_valid_content resolve [a, b, c, d] q errs = Inr st
               \<and> gathered_batches st = [[a, b], [c, d]]
               \<and> valid_content st = [ca, cc]
               \<and> iteration_count st = 2
               \<and> set (tried_sources st) = {url a, url b, url c}"
    if scope: "sources q \<noteq> BOTH"
  proof -
    have bal: "select_sources_for_extraction [a, b, c, d] q = [a, b]"
      using scope target by (simp add: select_sources_for_extraction_def slice_to_def)
    have it1: "\<exists>st1. iteration resolve [a, b, c, d] 2 3 [a, b] st0 = Continue st1
        \<and> valid_content st1 = [ca] \<and> set (tried_sources st1) = {url a, url b}
        \<and> source_index st1 = 3 \<and> iteration_count st1 = 1
        \<and> gathered_batches st1 = [[a, b]]"
    proof (cases "resolve (Suc 0) (Suc 0) b")
      case (Exc msg)
      then show ?thesis using ra a_ok
        by (simp add: iteration_def process_batch_def Let_def st0_def initial_state_def
            insert_commute)
    next
      case (Res cb)
      then have "validation_failed cb \<or> insufficient cb"
        using rb[rule_format, of "Suc 0" "Suc 0"] by (simp add: rejected_def)
      then show ?thesis using ra a_ok Res
        by (auto simp: iteration_def process_batch_def Let_def st0_def initial_state_def
            insert_commute)
    qed
    then obtain st1 where s1: "iteration resolve [a, b, c, d] 2 3 [a, b] st0 = Continue st1"
      and v1: "valid_content st1 = [ca]" and t1: "set (tried_sources st1) = {url a, url b}"
      and i1: "source_index st1 = 3" and c1: "iteration_count st1 = 1"
      and b1: "gathered_batches st1 = [[a, b]]" by blast
    have g1: "loop_guard [a, b, c, d] 2 st1"
      by (simp add: loop_guard_def v1 i1 c1 max_iterations_def)
    have it2: "\<exists>st2. iteration resolve [a, b, c, d] 2 3 [a, b] st1 = Continue st2
        \<and> valid_content st2 = [ca, cc] \<and> set (tried_sources st2) = {url a, url b, url c}
        \<and> iteration_count st2 = 2 \<and> gathered_batches st2 = [[a, b], [c, d]]"
      using rc c_ok ne
      by (simp add: iteration_def process_batch_def Let_def i1 c1 v1 t1 b1 insert_commute)
    then obtain st2 where s2: "iteration resolve [a, b, c, d] 2 3 [a, b] st1 = Continue st2"
      and v2: "valid_content st2 = [ca, cc]"
      and t2: "set (tried_sources st2) = {url a, url b, url c}"
      and c2: "iteration_count st2 = 2"
      and b2: "gathered_batches st2 = [[a, b], [c, d]]" by blast
    have g2: "\<not> loop_guard [a, b, c, d] 2 st2"
      by (simp add: loop_guard_def v2)
    have "while_loop resolve [a, b, c, d] 2 3 [a, b] st0 = Inr st2"
      by (simp add: while_loop_Continue[OF g0 s1] while_loop_Continue[OF g1 s2]
          while_loop_exit[OF g2])
    from final[unfolded bal, OF this] show ?thesis
      using v2 t2 c2 b2 by auto
  qed
  have both: "\<exists>st. extract_valid_content resolve [a, b, c, d] q errs = Inr st
               \<and> gathered_batches st = [[a, c]]
               \<and> valid_content st = [ca, cc]
               \<and> iteration_count st = 1
               \<and> set (tried_sources st) = {url a, url c}"
    if scope: "sources q = BOTH" and prov: "is_web a" "is_web b" "is_academic c" "is_academic d"
  proof -
    have nprov: "\<not> is_academic a" "\<not> is_academic b" "\<not> is_web c" "\<not> is_web d"
      using prov by (simp_all add: is_web_def is_academic_def)
    have bal: "select_sources_for_extraction [a, b, c, d] q = [a, c]"
      using scope target prov nprov
      by (simp add: select_sources_for_extraction_def slice_to_def Let_def upt2)
    have it1: "\<exists>st1. iteration resolve [a, b, c, d] 2 3 [a, c] st0 = Continue st1
        \<and> valid_content st1 = [ca, cc] \<and> set (tried_sources st1) = {url a, url c}
        \<and> iteration_count st1 = 1 \<and> gathered_batches st1 = [[a, c]]"
      using ra rc a_ok c_ok
      by (simp add: iteration_def process_batch_def Let_def st0_def initial_state_def
          insert_commute)
    then obtain st1 where s1: "iteration resolve [a, b, c, d] 2 3 [a, c] st0 = Continue st1"
      and v1: "valid_content st1 = [ca, cc]" and t1: "set (tried_sources st1) = {url a, url c}"
      and c1: "iteration_count st1 = 1" and b1: "gathered_batches st1 = [[a, c]]" by blast
    have g1: "\<not> loop_guard [a, b, c, d] 2 st1"
      by (simp add: loop_guard_def v1)
    have "while_loop resolve [a, b, c, d] 2 3 [a, c] st0 = Inr st1"
      by (simp add: while_loop_Continue[OF g0 s1] while_loop_exit[OF g1])
    from final[unfolded bal, OF this] show ?thesis
      using v1 t1 c1 b1 by auto
  qed
  show ?thesis using single both by blast
qed

theorem C3_two_batches_amended_witness:
  "num_results (example_query WEB 2) = 2 \<and> sources (example_query WEB 2) \<noteq> BOTH
   \<and> num_results (example_query BOTH 2) = 2 \<and> sources (example_query BOTH 2) = BOTH
   \<and> is_web (web_hit ''a'') \<and> is_web (web_hit ''b'')
   \<and> is_academic (academic_hit ''c'' []) \<and> is_academic (academic_hit ''d'' [])
   \<and> acceptable (Res (good_content ''a'')) \<and> acceptable (Res (good_content ''c''))
   \<and> rejected (scenario_resolver 1 1 (web_hit ''b''))
   \<and> (\<exists>st. extract_valid_content scenario_resolver
               [web_hit ''a'', web_hit ''b'', web_hit ''c'', web_hit ''d'']
               (example_query WEB 2) [] = Inr st
          \<and> gathered_batches st = [[web_hit ''a'', web_hit ''b''], [web_hit ''c'', web_hit ''d'']]
          \<and> valid_content st = [good_content ''a'', good_content ''c'']
          \<and> iteration_count st = 2)
   \<and> (\<exists>st. extract_valid_content scenario_resolver
               [web_hit ''a'', web_hit ''b'', academic_hit ''c'' [], academic_hit ''d'' []]
               (example_query BOTH 2) [] = Inr st
          \<and> gathered_batches st = [[web_hit ''a'', academic_hit ''c'' []]]
          \<and> valid_content st = [good_content ''a'', good_content ''c'']
          \<and> iteration_count st = 1)"
proof -
  have q: "num_results (example_query WEB 2) = 2" "sources (example_query WEB 2) \<noteq> BOTH"
    "num_results (example_query BOTH 2) = 2" "sources (example_query BOTH 2) = BOTH"
    by (simp_all add: example_query_def)
  have p: "is_web (web_hit ''a'')" "is_web (web_hit ''b'')"
    "is_academic (academic_hit ''c'' [])" "is_academic (academic_hit ''d'' [])"
    by (simp_all add: is_web_def is_academic_def web_hit_def academic_hit_def)
  have d1: "distinct [url (web_hit ''a''), url (web_hit ''b''), url (web_hit ''c''), url (web_hit ''d'')]"
    and d2: "distinct [url (web_hit ''a''), url (web_hit ''b''), url (academic_hit ''c'' []),
                       url (academic_hit ''d'' [])]"
    by (simp_all add: web_hit_def academic_hit_def)
  have ra: "\<forall>it i. scenario_resolver it i (web_hit ''a'') = Res (good_content ''a'')"
    and rb: "\<forall>it i. rejected (scenario_resolver it i (web_hit ''b''))"
    and rc1: "\<forall>it i. scenario_resolver it i (web_hit ''c'') = Res (good_content ''c'')"
    and rc2: "\<forall>it i. scenario_resolver it i (academic_hit ''c'' []) = Res (good_content ''c'')"
    by (simp_all add: scenario_resolver_def web_hit_def academic_hit_def rejected_def
        validation_failed_def invalid_content_def insufficient_def)
  have va: "acceptable (Res (good_content ''a''))" and vc: "acceptable (Res (good_content ''c''))"
    by code_simp+
  have r1: "rejected (scenario_resolver 1 1 (web_hit ''b''))" using rb by blast
  note w = C3_two_batches_amended [OF q(1) d1 ra va rb rc1 vc, of "[]"]
  note m = C3_two_batches_amended [OF q(3) d2 ra va rb rc2 vc, of "[]"]
  show ?thesis using w m q p va vc r1 by blast
qed

text \<open>
  C3 as stated fails: with a target of 2 the balancer's selection has at most two
  elements, so the first batch is never the first three candidates.  For scope "web" it
  is \<open>[a, b]\<close>, for scope "both" with these web candidates it is \<open>[a]\<close>; after it one
  content is accepted, and the loop issues a second batch.
\<close>

theorem C3_two_batches_counterexample:
  "\<not> isl (extract_valid_content scenario_resolver scenario_candidates (example_query WEB 2) [])
   \<and> iteration_count (projr (extract_valid_content scenario_resolver scenario_candidates
        (example_query WEB 2) [])) = 2
   \<and> map (map url) (gathered_batches (projr (extract_valid_content scenario_resolver
        scenario_candidates (example_query WEB 2) []))) = [[''a'', ''b''], [''c'', ''d'']]
   \<and> iteration_count (projr (extract_valid_content scenario_resolver scenario_candidates
        (example_query BOTH 2) [])) = 2
   \<and> map (map url) (gathered_batches (projr (extract_valid_content scenario_resolver
        scenario_candidates (example_query BOTH 2) []))) = [[''a''], [''b'', ''c'', ''d'']]"
  by code_simp

section \<open>Properties of the validity filter\<close>

text \<open>
  C5.  The claim is that a content in which more than 30 percent of the words are UI
  terms is rejected, which is what the comments of the filter say.  The filter instead
  divides the number of distinct terms that occur, at most 7, by the number of words.  In
  \<open>navigation_text\<close> 12 of the 13 words are UI terms; three distinct terms occur, 3
  is not more than 30 percent of 13, and the filter accepts the text.
\<close>

theorem C5_navigation_text_accepted:
  "spec_ui_word_share_exceeds_30 navigation_text
   \<and> length (spec_ui_words navigation_text) = 12 \<and> length (split_ws navigation_text) = 13
   \<and> ui_count navigation_text = 3
   \<and> is_valid_content navigation_text [] []"
  by code_simp

section \<open>Properties of the report formatting\<close>

lemma length_truncation_msg: "length truncation_msg = 40"
  by (simp add: truncation_msg_def)

text \<open>
  C4, as amended.  For every result and every \<open>max_size\<close> of at least 40, the length
  of the truncation marker, for which the untruncated output is longer than \<open>max_size\<close>,
  the output has exactly \<open>max_size\<close> characters and ends with the truncation marker.
\<close>

theorem C4_truncation_within_budget:
  assumes "int (length (untruncated_output r)) > max_size" and "40 \<le> max_size"
  shows "int (length (format_output r max_size)) = max_size
       \<and> suffix truncation_msg (format_output r max_size)"
  using assms
  by (auto simp: format_output_def Let_def slice_to_def length_truncation_msg suffix_def)

theorem C4_truncation_within_budget_witness:
  "int (length (untruncated_output small_result)) > 50 \<and> (40::int) \<le> 50
   \<and> int (length (format_output small_result 50)) = 50
   \<and> suffix truncation_msg (format_output small_result 50)"
proof -
  have a: "int (length (untruncated_output small_result)) > 50" by code_simp
  have b: "(40::int) \<le> 50" by simp
  show ?thesis using C4_truncation_within_budget [OF a b] a b by simp
qed

text \<open>
  C4 as stated fails for a \<open>max_size\<close> below 40: no string of at most \<open>max_size\<close>
  characters can end with the marker, which has 40.  Here the untruncated output has 88
  characters and the output for \<open>max_size = 10\<close> has 98.
\<close>

theorem C4_small_budget_counterexample:
  "int (length (untruncated_output small_result)) > 10
   \<and> length (untruncated_output small_result) = 88
   \<and> length (format_output small_result 10) = 98
   \<and> \<not> int (length (format_output small_result 10)) \<le> 10"
  by code_simp

section \<open>Properties of the academic searcher\<close>

lemma academic_search_non_2xx_raises:
  assumes "http 0 = GetResponse response"
    and "\<not> (200 \<le> status_code response \<and> status_code response \<le> 299)"
  shows "\<exists>m. AcademicSearcher_search quote_plus http query_text n = Inl (SearchError ''academic'' m)"
proof -
  define u where "u = ''https://api.semanticscholar.org/graph/v1/paper/search?query='' @
              quote_plus query_text @ ''&limit='' @ str_int n @
              ''&fields=title,authors,year,venue,url,abstract''"
  have "\<exists>m. raise_for_status response u = Inl (HTTPStatusError m)"
    using assms(2) by (auto simp: raise_for_status_def Let_def)
  then obtain m where "raise_for_status response u = Inl (HTTPStatusError m)" by blast
  then have "make_request (http 0) u = Inl (HTTPStatusError m)"
    using assms(1) by (simp add: make_request_def)
  then have "make_request_with_retry http u [0 ..< max_retries] = Inl (HTTPStatusError m)"
    by (simp add: max_retries_def)
  then have "AcademicSearcher_search quote_plus http query_text n
               = Inl (SearchError ''academic'' (exn_str (HTTPStatusError m)))"
    unfolding AcademicSearcher_search_def u_def Let_def by (simp only: sum.case)
  then show ?thesis by blast
qed

lemma academic_search_other_2xx_empty:
  assumes "http 0 = GetResponse response"
    and "200 \<le> status_code response" "status_code response \<le> 299" "status_code response \<noteq> 200"
  shows "AcademicSearcher_search quote_plus http query_text n = Inr []"
  using assms
  by (simp add: AcademicSearcher_search_def Let_def max_retries_def make_request_def
      raise_for_status_def)

text \<open>
  C2.  The claim is that a response with a status other than 200 makes \<open>search\<close> return
  the empty list.  That holds for the other 2xx statuses
  (\<open>academic_search_other_2xx_empty\<close>); for every status outside 2xx
  \<open>raise_for_status\<close> raises in \<open>_make_request\<close>, the retry helper raises it again and
  \<open>search\<close> raises a \<open>SearchError\<close> (\<open>academic_search_non_2xx_raises\<close>), so the test of
  the status at lines 60 to 66 is never reached.  Here the response has status 429.
\<close>

theorem C2_rate_limit_raises_search_error:
  "isl (AcademicSearcher_search (\<lambda>s. s) too_many_requests ''q'' 6)
   \<and> projl (AcademicSearcher_search (\<lambda>s. s) too_many_requests ''q'' 6) =
       (SearchError ''academic''
         (''Client error '' @ [CHR 0x27] @ ''429 Too Many Requests'' @ [CHR 0x27] @ '' for url '' @
          [CHR 0x27] @ ''https://api.semanticscholar.org/graph/v1/paper/search?query=q&limit=6&fields=title,authors,year,venue,url,abstract'' @ [CHR 0x27]))"
  by code_simp

end
